theory Spec2Isabelle
  imports Main "HOL-Library.Word" "HOL-Library.Signed_Division"
begin

section \<open>Tensor view geometry of ATen/native/TensorShape.cpp\<close>

text \<open>
  The functions of TensorShape.cpp compute the sizes, strides and storage offset of a view
  from those of its source. Every quantity is an \<open>int64_t\<close>; it is a 64-bit word here, so
  \<open>+\<close>, \<open>-\<close> and \<open>*\<close> wrap around, comparisons are the signed ones (\<open><s\<close>, \<open>\<le>s\<close>) and
  \<open>/\<close> and \<open>%\<close> truncate towards zero. An exception is a value \<open>Inl e\<close> of the result.
\<close>

type_synonym int64 = "64 word"

definition sdiv64 :: "int64 \<Rightarrow> int64 \<Rightarrow> int64" where
  "sdiv64 a b = word_of_int (sint a sdiv sint b)"

definition smod64 :: "int64 \<Rightarrow> int64 \<Rightarrow> int64" where
  "smod64 a b = word_of_int (sint a smod sint b)"

definition smax64 :: "int64 \<Rightarrow> int64 \<Rightarrow> int64" where
  "smax64 a b = (if a <s b then b else a)"

text \<open>
  The source throws \<open>at::Error\<close> and \<open>std::runtime_error\<close> with a message; the kinds below
  are the specification's names for them. \<open>InvalidSplitSize\<close> stands for the two messages
  of \<open>split\<close> and the one of \<open>split_with_sizes\<close> about a bad split size, for which the
  specification has no name, and \<open>AllocationError\<close> for the exception of a \<open>std::vector\<close>
  constructor that cannot provide the elements asked for.
\<close>

datatype error =
    InvalidDimension
  | RepeatedDimension
  | IndexOutOfRange
  | NonPositiveStep
  | ShapeMismatch
  | InvalidShapeDimension
  | ZeroDimTensorError
  | EmptyTensorError
  | InvalidSplitSize
  | AllocationError

record tensor =
  sizes :: "int64 list"
  strides :: "int64 list"
  storage_offset :: int64
  is_sparse :: bool

text \<open>
  What an operation returns: a view \<open>View g\<close> on the storage of its argument with the
  geometry \<open>g\<close>; the new tensor \<open>Empty_tensor\<close> of \<open>self.type().tensor()\<close>, which has no
  element and shares nothing with the argument; or \<open>Sparse_transposed\<close>, the outcome of
  \<open>sparse_transpose_\<close> on a clone, which the index tensors of the sparse layout decide and
  the geometry does not.
\<close>

datatype handle =
    View tensor
  | Empty_tensor
  | Sparse_transposed tensor int64 int64

text \<open>\<open>self.dim()\<close>: the number of dimensions, as an \<open>int64_t\<close>.\<close>

definition tensor_dim :: "tensor \<Rightarrow> int64" where
  "tensor_dim self = word_of_nat (length (sizes self))"

text \<open>
  Modelled from the spec: \<open>Tensor::numel\<close> is declared outside TensorShape.cpp; the
  specification gives \<open>numel = product(sizes)\<close>, 1 for rank 0.
\<close>

definition numel :: "tensor \<Rightarrow> int64" where
  "numel self = prod_list (sizes self)"

text \<open>
  Modelled from the spec: \<open>maybe_wrap_dim\<close> is defined in ATen/WrapDimUtils.h, outside
  TensorShape.cpp. The specification (4.1): return \<open>d + rank\<close> if \<open>d < 0\<close>, else \<open>d\<close>; fail
  with \<open>InvalidDimension\<close> if the result is negative or not below \<open>max(rank, 1)\<close>.
\<close>

definition maybe_wrap_dim :: "int64 \<Rightarrow> int64 \<Rightarrow> error + int64" where
  "maybe_wrap_dim d rank =
     (let d' = (if d <s 0 then d + rank else d)
      in if d' <s 0 \<or> smax64 rank 1 \<le>s d' then Inl InvalidDimension else Inr d')"

text \<open>
  Modelled from the spec: \<open>Tensor::size(dim)\<close> is declared outside TensorShape.cpp; it
  normalizes \<open>dim\<close> over the rank and reads \<open>sizes[dim]\<close>. A tensor of rank 0 has no size
  to read.
\<close>

definition tensor_size :: "tensor \<Rightarrow> int64 \<Rightarrow> error + int64" where
  "tensor_size self dim =
     (case maybe_wrap_dim dim (tensor_dim self) of
        Inl e \<Rightarrow> Inl e
      | Inr d \<Rightarrow> if nat (sint d) < length (sizes self) then Inr (sizes self ! nat (sint d))
                 else Inl InvalidDimension)"

text \<open>
  \<open>self.as_strided(size, stride, storage_offset)\<close>: the view of the same storage with the
  given geometry. The two-argument form (line 138) keeps the offset of \<open>self\<close>.
\<close>

definition as_strided3 :: "tensor \<Rightarrow> int64 list \<Rightarrow> int64 list \<Rightarrow> int64 \<Rightarrow> tensor" where
  "as_strided3 self sz stride offset =
     self\<lparr>sizes := sz, strides := stride, storage_offset := offset\<rparr>"

definition as_strided :: "tensor \<Rightarrow> int64 list \<Rightarrow> int64 list \<Rightarrow> tensor" where
  "as_strided self sz stride = as_strided3 self sz stride (storage_offset self)"

text \<open>\<open>v.erase(v.begin() + n)\<close> and \<open>v.insert(v.begin() + n, x)\<close> of \<open>std::vector\<close>.\<close>

definition erase :: "'a list \<Rightarrow> nat \<Rightarrow> 'a list" where
  "erase xs n = take n xs @ drop (Suc n) xs"

definition insert_at :: "'a list \<Rightarrow> nat \<Rightarrow> 'a \<Rightarrow> 'a list" where
  "insert_at xs n x = take n xs @ x # drop n xs"

subsection \<open>select, slice, narrow\<close>

text \<open>
  The parameter \<open>zd\<close> of the functions below says whether the macro
  \<open>USE_TH_SIZE_ZERO_DIM\<close> is defined; each \<open>#ifndef\<close> of the source is a test of \<open>\<not> zd\<close>.
\<close>

definition select :: "tensor \<Rightarrow> int64 \<Rightarrow> int64 \<Rightarrow> error + handle" where
  "select self dim index =
     (let ndim = tensor_dim self in
      if \<not> 0 <s ndim then Inl ZeroDimTensorError
      else case maybe_wrap_dim dim ndim of
        Inl e \<Rightarrow> Inl e
      | Inr d \<Rightarrow>
          let sz = sizes self ! nat (sint d) in
          if index <s - sz \<or> sz \<le>s index then Inl IndexOutOfRange
          else
            let index1 = (if index <s 0 then index + sz else index);
                offset = storage_offset self + index1 * strides self ! nat (sint d)
            in Inr (View (as_strided3 self (erase (sizes self) (nat (sint d)))
                            (erase (strides self) (nat (sint d))) offset)))"

text \<open>
  Lines 304 to 319 of \<open>slice\<close>: \<open>start\<close> and \<open>end\<close> after the two adjustments, for a
  dimension of size \<open>sz\<close>.
\<close>

definition slice_start :: "int64 \<Rightarrow> int64 \<Rightarrow> int64" where
  "slice_start sz start0 =
     (let start1 = (if start0 <s 0 then start0 + sz else start0)
      in if start1 <s 0 then 0 else if sz \<le>s start1 then sz else start1)"

definition slice_end :: "int64 \<Rightarrow> int64 \<Rightarrow> int64 \<Rightarrow> int64" where
  "slice_end sz start2 end0 =
     (let end1 = (if end0 <s 0 then end0 + sz else end0)
      in if end1 <s start2 then start2 else if sz \<le>s end1 then sz else end1)"

definition slice :: "bool \<Rightarrow> tensor \<Rightarrow> int64 \<Rightarrow> int64 \<Rightarrow> int64 \<Rightarrow> int64 \<Rightarrow> error + handle" where
  "slice zd self dim start0 end0 step =
     (let ndim = tensor_dim self in
      if \<not> 0 <s ndim then Inl ZeroDimTensorError
      else case maybe_wrap_dim dim ndim of
        Inl e \<Rightarrow> Inl e
      | Inr d \<Rightarrow>
          let sz = sizes self ! nat (sint d) in
          if step \<le>s 0 then Inl NonPositiveStep
          else
            let start2 = slice_start sz start0;
                end2 = slice_end sz start2 end0;
                offset = storage_offset self + start2 * strides self ! nat (sint d);
                len = end2 - start2
            in if \<not> zd \<and> len = 0 then Inr Empty_tensor
               else Inr (View (as_strided3 self
                     ((sizes self)[nat (sint d) := sdiv64 (len + step - 1) step])
                     ((strides self)[nat (sint d) := strides self ! nat (sint d) * step])
                     offset)))"

definition narrow :: "bool \<Rightarrow> tensor \<Rightarrow> int64 \<Rightarrow> int64 \<Rightarrow> int64 \<Rightarrow> error + handle" where
  "narrow zd self dim start len =
     (if \<not> 0 <s tensor_dim self then Inl ZeroDimTensorError
      else case tensor_size self dim of
        Inl e \<Rightarrow> Inl e
      | Inr cur_size \<Rightarrow>
          if start <s 0 then Inl IndexOutOfRange
          else if (if zd then len <s 0 else len \<le>s 0) \<or> cur_size - len <s start
          then Inl IndexOutOfRange
          else slice zd self dim start (start + len) 1)"

subsection \<open>infer_size\<close>

text \<open>
  The loop of \<open>infer_size\<close> over the requested shape: \<open>dim\<close> is the position reached,
  \<open>newsize\<close> the running product and \<open>infer_dim\<close> the position of the \<open>-1\<close> seen so far.
\<close>

fun infer_loop ::
  "int64 list \<Rightarrow> nat \<Rightarrow> int64 \<Rightarrow> nat option \<Rightarrow> error + (int64 \<times> nat option)" where
  "infer_loop [] dim newsize infer_dim = Inr (newsize, infer_dim)"
| "infer_loop (s # shape) dim newsize infer_dim =
     (if s = - 1 then
        (case infer_dim of
           Some _ \<Rightarrow> Inl InvalidShapeDimension
         | None \<Rightarrow> infer_loop shape (Suc dim) newsize (Some dim))
      else if 0 \<le>s s then infer_loop shape (Suc dim) (newsize * s) infer_dim
      else Inl InvalidShapeDimension)"

definition infer_size :: "bool \<Rightarrow> int64 list \<Rightarrow> int64 \<Rightarrow> error + int64 list" where
  "infer_size zd shape n =
     (case infer_loop shape 0 1 None of
        Inl e \<Rightarrow> Inl e
      | Inr (newsize, infer_dim) \<Rightarrow>
          if n = newsize \<or> (infer_dim \<noteq> None \<and> 0 <s newsize \<and> smod64 n newsize = 0) then
            (case infer_dim of
               None \<Rightarrow> if \<not> zd \<and> n = 0 then Inr [0] else Inr shape
             | Some i \<Rightarrow>
                 if newsize = 0 then Inl ShapeMismatch
                 else if \<not> zd \<and> n = 0 then Inr [0]
                 else Inr (shape[i := sdiv64 n newsize]))
          else Inl ShapeMismatch)"

subsection \<open>split, split_with_sizes\<close>

text \<open>A loop that fills \<open>splits[i]\<close> for each \<open>i\<close> in turn and stops at the first exception.\<close>

fun collect :: "('a \<Rightarrow> error + 'b) \<Rightarrow> 'a list \<Rightarrow> error + 'b list" where
  "collect f [] = Inr []"
| "collect f (x # xs) =
     (case f x of
        Inl e \<Rightarrow> Inl e
      | Inr y \<Rightarrow> (case collect f xs of Inl e \<Rightarrow> Inl e | Inr ys \<Rightarrow> Inr (y # ys)))"

text \<open>
  Line 347 of \<open>split\<close> constructs \<open>std::vector<Tensor> splits(num_splits)\<close> before the
  first \<open>narrow\<close>. The constructor throws when it cannot provide \<open>num_splits\<close> tensors:
  \<open>std::length_error\<close> beyond \<open>max_size()\<close>, \<open>std::bad_alloc\<close> when the memory is short.
  The parameter \<open>capacity\<close> is the largest number of tensors it provides, a constant of
  the implementation that TensorShape.cpp does not fix. In \<open>split_with_sizes\<close> the vector
  is as long as the list \<open>split_sizes\<close>, which is already held in memory, and its
  construction is taken to succeed.
\<close>

definition split :: "nat \<Rightarrow> bool \<Rightarrow> tensor \<Rightarrow> int64 \<Rightarrow> int64 \<Rightarrow> error + handle list" where
  "split capacity zd self split_size dim =
     (if tensor_dim self = 0 then Inl ZeroDimTensorError
      else if \<not> 0 \<le>s split_size then Inl InvalidSplitSize
      else case tensor_size self dim of
        Inl e \<Rightarrow> Inl e
      | Inr dim_size \<Rightarrow>
          if \<not> (0 <s split_size \<or> dim_size = 0) then Inl InvalidSplitSize
          else
            let num_splits =
                  (if split_size \<noteq> 0
                   then smax64 (sdiv64 (dim_size + split_size - 1) split_size) 1 else 1)
            in if capacity < nat (sint num_splits) then Inl AllocationError
               else
                 let last_split_size = split_size - (split_size * num_splits - dim_size)
                 in collect
                      (\<lambda>i. narrow zd self dim (word_of_nat i * split_size)
                             (if word_of_nat i <s num_splits - 1 then split_size
                              else last_split_size))
                      [0 ..< nat (sint num_splits)])"

text \<open>
  The loop of \<open>split_with_sizes\<close>: the views made and the final \<open>start_idx\<close>.
\<close>

fun sizes_loop ::
  "bool \<Rightarrow> tensor \<Rightarrow> int64 \<Rightarrow> int64 \<Rightarrow> int64 list \<Rightarrow> error + (handle list \<times> int64)" where
  "sizes_loop zd self dim start_idx [] = Inr ([], start_idx)"
| "sizes_loop zd self dim start_idx (len # split_sizes) =
     (if len <s 0 then Inl InvalidSplitSize
      else case narrow zd self dim start_idx len of
        Inl e \<Rightarrow> Inl e
      | Inr v \<Rightarrow>
          (case sizes_loop zd self dim (start_idx + len) split_sizes of
             Inl e \<Rightarrow> Inl e
           | Inr (vs, fin) \<Rightarrow> Inr (v # vs, fin)))"

definition split_with_sizes ::
  "bool \<Rightarrow> tensor \<Rightarrow> int64 list \<Rightarrow> int64 \<Rightarrow> error + handle list" where
  "split_with_sizes zd self split_sizes dim =
     (if tensor_dim self = 0 then Inl ZeroDimTensorError
      else case tensor_size self dim of
        Inl e \<Rightarrow> Inl e
      | Inr dim_size \<Rightarrow>
          (case sizes_loop zd self dim 0 split_sizes of
             Inl e \<Rightarrow> Inl e
           | Inr (splits, start_idx) \<Rightarrow>
               if start_idx \<noteq> dim_size then Inl ShapeMismatch else Inr splits))"

subsection \<open>unsqueeze, transpose, permute, expand\<close>

definition inferUnsqueezeGeometry ::
  "bool \<Rightarrow> tensor \<Rightarrow> int64 \<Rightarrow> error + (int64 list \<times> int64 list)" where
  "inferUnsqueezeGeometry zd t dim =
     (if \<not> zd \<and> numel t = 0 then Inl EmptyTensorError
      else
        let new_stride =
              (if tensor_dim t \<le>s dim then 1 else sizes t ! nat (sint dim) * strides t ! nat (sint dim))
        in Inr (insert_at (sizes t) (nat (sint dim)) 1, insert_at (strides t) (nat (sint dim)) new_stride))"

definition unsqueeze :: "bool \<Rightarrow> tensor \<Rightarrow> int64 \<Rightarrow> error + handle" where
  "unsqueeze zd self dim =
     (case maybe_wrap_dim dim (tensor_dim self + 1) of
        Inl e \<Rightarrow> Inl e
      | Inr d \<Rightarrow>
          (case inferUnsqueezeGeometry zd self d of
             Inl e \<Rightarrow> Inl e
           | Inr (sz, st) \<Rightarrow> Inr (View (as_strided self sz st))))"

text \<open>\<open>std::swap(v[i], v[j])\<close>.\<close>

definition swap :: "'a list \<Rightarrow> nat \<Rightarrow> nat \<Rightarrow> 'a list" where
  "swap xs i j = xs[i := xs ! j, j := xs ! i]"

definition transpose_t :: "tensor \<Rightarrow> int64 \<Rightarrow> int64 \<Rightarrow> error + handle" where
  "transpose_t self dim0 dim1 =
     (let ndims = tensor_dim self in
      case maybe_wrap_dim dim0 ndims of
        Inl e \<Rightarrow> Inl e
      | Inr d0 \<Rightarrow>
          (case maybe_wrap_dim dim1 ndims of
             Inl e \<Rightarrow> Inl e
           | Inr d1 \<Rightarrow>
               if d0 = d1 then Inr (View self)
               else if is_sparse self then Inr (Sparse_transposed self d0 d1)
               else Inr (View (as_strided self (swap (sizes self) (nat (sint d0)) (nat (sint d1)))
                                (swap (strides self) (nat (sint d0)) (nat (sint d1)))))))"

text \<open>
  The loop of \<open>permute\<close> over \<open>dims\<close>, with the vector \<open>seen\<close>; it returns the entries
  \<open>newSizes[i]\<close> and \<open>newStrides[i]\<close> from the position reached on.
\<close>

fun permute_loop ::
  "tensor \<Rightarrow> int64 list \<Rightarrow> bool list \<Rightarrow> error + (int64 list \<times> int64 list)" where
  "permute_loop self [] seen = Inr ([], [])"
| "permute_loop self (x # dims) seen =
     (case maybe_wrap_dim x (tensor_dim self) of
        Inl e \<Rightarrow> Inl e
      | Inr d \<Rightarrow>
          if seen ! nat (sint d) then Inl RepeatedDimension
          else
            (case permute_loop self dims (seen[nat (sint d) := True]) of
               Inl e \<Rightarrow> Inl e
             | Inr (ns, nt) \<Rightarrow> Inr (sizes self ! nat (sint d) # ns, strides self ! nat (sint d) # nt)))"

definition permute :: "tensor \<Rightarrow> int64 list \<Rightarrow> error + handle" where
  "permute self dims =
     (if length dims \<noteq> length (sizes self) then Inl InvalidDimension
      else case permute_loop self dims (replicate (length (sizes self)) False) of
        Inl e \<Rightarrow> Inl e
      | Inr (newSizes, newStrides) \<Rightarrow> Inr (View (as_strided self newSizes newStrides)))"

text \<open>
  Modelled from the spec: \<open>inferExpandGeometry\<close> is defined in ATen/ExpandUtils.cpp,
  outside TensorShape.cpp. The specification (4.2, expand): the trailing dimensions of
  the target align with the dimensions of the source; a source dimension of size 1 takes
  the target size with stride 0; an added leading dimension takes the target size with
  stride 0; a source size that is neither 1 nor the target size is a \<open>ShapeMismatch\<close>.
\<close>

fun expand_aligned ::
  "int64 list \<Rightarrow> int64 list \<Rightarrow> int64 list \<Rightarrow> error + (int64 list \<times> int64 list)" where
  "expand_aligned (sz # szs) (st # sts) (tg # tgs) =
     (if sz \<noteq> tg \<and> sz \<noteq> 1 then Inl ShapeMismatch
      else case expand_aligned szs sts tgs of
        Inl e \<Rightarrow> Inl e
      | Inr (es, et) \<Rightarrow> Inr (tg # es, (if sz = tg then st else 0) # et))"
| "expand_aligned _ _ _ = Inr ([], [])"

definition inferExpandGeometry ::
  "tensor \<Rightarrow> int64 list \<Rightarrow> error + (int64 list \<times> int64 list)" where
  "inferExpandGeometry t target =
     (let lead = length target - length (sizes t) in
      case expand_aligned (sizes t) (strides t) (drop lead target) of
        Inl e \<Rightarrow> Inl e
      | Inr (es, et) \<Rightarrow> Inr (take lead target @ es, replicate lead 0 @ et))"

definition expand :: "tensor \<Rightarrow> int64 list \<Rightarrow> bool \<Rightarrow> error + handle" where
  "expand self target implicit =
     (if length target < length (sizes self) then Inl ShapeMismatch
      else case inferExpandGeometry self target of
        Inl e \<Rightarrow> Inl e
      | Inr (expandedSizes, expandedStrides) \<Rightarrow>
          Inr (View (as_strided self expandedSizes expandedStrides)))"

subsection \<open>The specification's slice bounds\<close>

text \<open>
  The bounds of a slice as the specification words them, on integers: a negative \<open>start\<close>
  or \<open>end\<close> has the size added, both are clamped into \<open>[0, size]\<close>, and an \<open>end\<close> below
  \<open>start\<close> is replaced by \<open>start\<close>.
\<close>

definition spec_clamp :: "int \<Rightarrow> int \<Rightarrow> int" where
  "spec_clamp sz i = max 0 (min sz (if i < 0 then i + sz else i))"

definition spec_start :: "int \<Rightarrow> int \<Rightarrow> int" where
  "spec_start sz start0 = spec_clamp sz start0"

definition spec_end :: "int \<Rightarrow> int \<Rightarrow> int \<Rightarrow> int" where
  "spec_end sz start0 end0 =
     (if spec_clamp sz end0 < spec_start sz start0 then spec_start sz start0
      else spec_clamp sz end0)"

subsection \<open>The specification's consecutive views\<close>

text \<open>
  The views the specification expects of a partition of dimension \<open>k\<close>: one per length, each
  starting where the one before ends.
\<close>

fun narrow_views :: "tensor \<Rightarrow> nat \<Rightarrow> int64 \<Rightarrow> int64 list \<Rightarrow> handle list" where
  "narrow_views t k start [] = []"
| "narrow_views t k start (len # lens) =
     View (t\<lparr>sizes := (sizes t)[k := len],
             storage_offset := storage_offset t + start * strides t ! k\<rparr>)
       # narrow_views t k (start + len) lens"

subsection \<open>The specification's free dimension\<close>

text \<open>The position of the first \<open>-1\<close> of a requested shape, if there is one.\<close>

fun free_dim :: "int64 list \<Rightarrow> nat option" where
  "free_dim [] = None"
| "free_dim (s # shape) = (if s = - 1 then Some 0 else map_option Suc (free_dim shape))"

text \<open>
  A requested shape that the loop of \<open>infer_size\<close> lets through: at most one \<open>-1\<close>, every
  other entry non-negative.
\<close>

definition valid_shape :: "int64 list \<Rightarrow> bool" where
  "valid_shape shape \<longleftrightarrow>
     list_all (\<lambda>s. s = - 1 \<or> 0 \<le>s s) shape \<and> count_list shape (- 1) \<le> 1"

subsection \<open>The addressing function\<close>

text \<open>
  Modelled from the spec: the data model (3) gives the place of the element at a
  multi-index as \<open>storage_offset\<close> plus the sum of the products of each index with its
  stride; no function of TensorShape.cpp computes it.
\<close>

definition address :: "tensor \<Rightarrow> int64 list \<Rightarrow> int64" where
  "address t idx = storage_offset t + sum_list (map (\<lambda>(i, s). i * s) (zip idx (strides t)))"

subsection \<open>Well-formed tensors\<close>

text \<open>
  The invariant of the data model: as many strides as sizes, no negative size, and a rank
  that an \<open>int64_t\<close> holds.
\<close>

definition wf_tensor :: "tensor \<Rightarrow> bool" where
  "wf_tensor t \<longleftrightarrow>
     length (strides t) = length (sizes t) \<and> length (sizes t) < 2 ^ 63 \<and>
     list_all (\<lambda>s. 0 \<le>s s) (sizes t)"

section \<open>Signed 64-bit arithmetic\<close>

lemma sint64_range: "- (2 ^ 63) \<le> sint (w :: int64) \<and> sint w < 2 ^ 63"
  using sint_greater_eq [of w] sint_less [of w] by simp

lemma sint64_of_int: "- (2 ^ 63) \<le> i \<Longrightarrow> i < 2 ^ 63 \<Longrightarrow> sint (word_of_int i :: int64) = i"
  by (simp add: sint_sbintrunc' signed_take_bit_int_eq_self)

lemma sint64_add:
  "- (2 ^ 63) \<le> sint a + sint b \<Longrightarrow> sint a + sint b < 2 ^ 63 \<Longrightarrow>
   sint (a + b :: int64) = sint a + sint b"
  by (simp add: sint_word_ariths signed_take_bit_int_eq_self)

lemma sint64_sub:
  "- (2 ^ 63) \<le> sint a - sint b \<Longrightarrow> sint a - sint b < 2 ^ 63 \<Longrightarrow>
   sint (a - b :: int64) = sint a - sint b"
  by (simp add: sint_word_ariths signed_take_bit_int_eq_self)

lemma sint64_mult:
  "- (2 ^ 63) \<le> sint a * sint b \<Longrightarrow> sint a * sint b < 2 ^ 63 \<Longrightarrow>
   sint (a * b :: int64) = sint a * sint b"
  by (simp add: sint_word_ariths signed_take_bit_int_eq_self)

lemma sint64_neg: "sint a \<noteq> - (2 ^ 63) \<Longrightarrow> sint (- a :: int64) = - sint a"
  using sint64_range [of a] by (simp add: sint_word_ariths signed_take_bit_int_eq_self)

lemma sless64: "(a :: int64) <s b \<longleftrightarrow> sint a < sint b"
  by (simp add: word_sless_alt)

lemma sle64: "(a :: int64) \<le>s b \<longleftrightarrow> sint a \<le> sint b"
  by (simp add: word_sle_eq)

lemma sint64_eq_iff: "(a :: int64) = b \<longleftrightarrow> sint a = sint b"
  by (auto intro: signed_word_eqI)

lemma sint64_of_nat: "n < 2 ^ 63 \<Longrightarrow> sint (word_of_nat n :: int64) = int n"
  by (simp add: signed_of_nat signed_take_bit_int_eq_self)

lemma sint64_one: "sint (1 :: int64) = 1"
  by simp

lemma sint_tensor_dim: "wf_tensor t \<Longrightarrow> sint (tensor_dim t) = int (length (sizes t))"
  by (simp add: wf_tensor_def tensor_dim_def sint64_of_nat)

lemma wf_size_nonneg: "wf_tensor t \<Longrightarrow> k < length (sizes t) \<Longrightarrow> 0 \<le> sint (sizes t ! k)"
  by (simp add: wf_tensor_def list_all_length sle64)

text \<open>What \<open>maybe_wrap_dim\<close> does, on the integers the words stand for.\<close>

lemma maybe_wrap_dim_sint:
  assumes "0 \<le> sint rank"
  shows "maybe_wrap_dim d rank =
     (if - sint rank \<le> sint d \<and> sint d < max (sint rank) 1
      then Inr (if sint d < 0 then d + rank else d) else Inl InvalidDimension)"
proof -
  have r: "sint (d + rank) = sint d + sint rank" if "sint d < 0"
    using that assms sint64_range [of d] sint64_range [of rank] by (intro sint64_add) auto
  have m: "sint (smax64 rank 1) = max (sint rank) 1"
    by (simp add: smax64_def sless64)
  show ?thesis
    using assms sint64_range [of d] sint64_range [of rank]
    by (auto simp: maybe_wrap_dim_def Let_def sless64 sle64 r m)
qed

lemma maybe_wrap_dim_Inr:
  assumes "wf_tensor t" "sizes t \<noteq> []" "maybe_wrap_dim dim (tensor_dim t) = Inr d"
  shows "0 \<le> sint d \<and> nat (sint d) < length (sizes t)"
proof -
  have n: "sint (tensor_dim t) = int (length (sizes t))"
    using assms(1) by (rule sint_tensor_dim)
  have r: "sint (dim + tensor_dim t) = sint dim + sint (tensor_dim t)" if "sint dim < 0"
    using that n sint64_range [of dim] sint64_range [of "tensor_dim t"] by (intro sint64_add) auto
  have "0 < length (sizes t)"
    using assms(2) by simp
  with assms(3) show ?thesis
    using n r by (auto simp: maybe_wrap_dim_sint split: if_splits)
qed

section \<open>select\<close>

lemma nth_take_drop_Suc:
  assumes "j < length xs - 1"
  shows "(take k xs @ drop (Suc k) xs) ! j = xs ! (if j < k then j else Suc j)"
proof (cases "j < k")
  case True
  have "j < length xs"
    using assms by simp
  then show ?thesis
    using True by (simp add: nth_append)
next
  case False
  have l: "Suc j < length xs" "k < length xs"
    using assms False by simp_all
  have "Suc k + (j - k) = Suc j"
    using False by simp
  then show ?thesis
    using False l by (simp add: nth_append min_def)
qed

text \<open>
  C2. On a tensor of rank 0, \<open>select\<close> fails. On a well-formed tensor of rank above 0, with
  \<open>k\<close> the normalized \<open>dim\<close>, \<open>select\<close> succeeds exactly for the indices from
  \<open>- size(k)\<close> up to, not including, \<open>size(k)\<close>, and fails with \<open>IndexOutOfRange\<close> for
  every other index. The result is the view whose sizes and strides are those of the source
  before position \<open>k\<close> followed by those after position \<open>k\<close>, so that entry \<open>j\<close> of the
  result is entry \<open>j\<close> of the source below \<open>k\<close> and entry \<open>j + 1\<close> from \<open>k\<close> on, and the rank
  is one less; its storage offset is the offset of the source plus the index, with
  \<open>size(k)\<close> added once if it is negative, times \<open>strides[k]\<close>; that addition does not
  overflow.
\<close>

theorem select_geometry:
  "(sizes t = [] \<longrightarrow> select t dim index = Inl ZeroDimTensorError) \<and>
   (wf_tensor t \<and> sizes t \<noteq> [] \<and> maybe_wrap_dim dim (tensor_dim t) = Inr d \<and>
    k = nat (sint d) \<longrightarrow>
      k < length (sizes t) \<and>
      select t dim index =
        (if - sint (sizes t ! k) \<le> sint index \<and> sint index < sint (sizes t ! k)
         then Inr (View (t\<lparr>sizes := take k (sizes t) @ drop (Suc k) (sizes t),
                          strides := take k (strides t) @ drop (Suc k) (strides t),
                          storage_offset := storage_offset t +
                            (if sint index < 0 then index + sizes t ! k else index) *
                            strides t ! k\<rparr>))
         else Inl IndexOutOfRange) \<and>
      length (take k (sizes t) @ drop (Suc k) (sizes t)) = length (sizes t) - 1 \<and>
      length (take k (strides t) @ drop (Suc k) (strides t)) = length (sizes t) - 1 \<and>
      (j < length (sizes t) - 1 \<longrightarrow>
         (take k (sizes t) @ drop (Suc k) (sizes t)) ! j = sizes t ! (if j < k then j else Suc j) \<and>
         (take k (strides t) @ drop (Suc k) (strides t)) ! j =
           strides t ! (if j < k then j else Suc j)) \<and>
      (- sint (sizes t ! k) \<le> sint index \<and> sint index < 0 \<longrightarrow>
         sint (index + sizes t ! k) = sint index + sint (sizes t ! k)))"
proof (intro conjI impI)
  assume "sizes t = []"
  then show "select t dim index = Inl ZeroDimTensorError"
    by (simp add: select_def tensor_dim_def Let_def)
next
  assume a: "wf_tensor t \<and> sizes t \<noteq> [] \<and> maybe_wrap_dim dim (tensor_dim t) = Inr d \<and>
    k = nat (sint d)"
  then have k: "0 \<le> sint d" "k < length (sizes t)"
    using maybe_wrap_dim_Inr [of t dim d] by auto
  show "k < length (sizes t)"
    by (rule k(2))
  have s: "0 \<le> sint (sizes t ! k)"
    using a k by (simp add: wf_size_nonneg)
  have len: "length (strides t) = length (sizes t)"
    using a by (simp add: wf_tensor_def)
  have pos: "0 <s tensor_dim t"
    using a by (simp add: sless64 sint_tensor_dim)
  have neg: "sint (- (sizes t ! k)) = - sint (sizes t ! k)"
    using s by (intro sint64_neg) auto
  have kd: "nat (sint d) = k"
    using a by simp
  show "select t dim index =
        (if - sint (sizes t ! k) \<le> sint index \<and> sint index < sint (sizes t ! k)
         then Inr (View (t\<lparr>sizes := take k (sizes t) @ drop (Suc k) (sizes t),
                          strides := take k (strides t) @ drop (Suc k) (strides t),
                          storage_offset := storage_offset t +
                            (if sint index < 0 then index + sizes t ! k else index) *
                            strides t ! k\<rparr>))
         else Inl IndexOutOfRange)"
    using a pos neg
    by (auto simp: select_def Let_def as_strided3_def erase_def sless64 sle64 kd)
  show "length (take k (sizes t) @ drop (Suc k) (sizes t)) = length (sizes t) - 1"
    using k by simp
  show "length (take k (strides t) @ drop (Suc k) (strides t)) = length (sizes t) - 1"
    using k len by simp
  show "(take k (sizes t) @ drop (Suc k) (sizes t)) ! j = sizes t ! (if j < k then j else Suc j)"
    if "j < length (sizes t) - 1"
    using that by (rule nth_take_drop_Suc)
  show "(take k (strides t) @ drop (Suc k) (strides t)) ! j =
      strides t ! (if j < k then j else Suc j)"
    if "j < length (sizes t) - 1"
    using that len nth_take_drop_Suc [of j "strides t" k] by simp
  show "sint (index + sizes t ! k) = sint index + sint (sizes t ! k)"
    if "- sint (sizes t ! k) \<le> sint index \<and> sint index < 0"
    using that s sint64_range [of index] sint64_range [of "sizes t ! k"]
    by (intro sint64_add) auto
qed

theorem select_geometry_witness:
  "select \<lparr>sizes = [], strides = [], storage_offset = 0, is_sparse = False\<rparr> 0 0 =
     Inl ZeroDimTensorError \<and>
   select \<lparr>sizes = [2, 3, 4], strides = [12, 4, 1], storage_offset = 7, is_sparse = False\<rparr> 0 1 =
     Inr (View \<lparr>sizes = [3, 4], strides = [4, 1], storage_offset = 19, is_sparse = False\<rparr>) \<and>
   select \<lparr>sizes = [2, 3, 4], strides = [12, 4, 1], storage_offset = 7, is_sparse = False\<rparr>
       (- 2) (- 1) =
     Inr (View \<lparr>sizes = [2, 4], strides = [12, 1], storage_offset = 15, is_sparse = False\<rparr>) \<and>
   select \<lparr>sizes = [2, 3, 4], strides = [12, 4, 1], storage_offset = 7, is_sparse = False\<rparr> 2 (- 2) =
     Inr (View \<lparr>sizes = [2, 3], strides = [12, 4], storage_offset = 9, is_sparse = False\<rparr>) \<and>
   select \<lparr>sizes = [2, 3, 4], strides = [12, 4, 1], storage_offset = 7, is_sparse = False\<rparr> 1 3 =
     Inl IndexOutOfRange \<and>
   [3, 4 :: int64] ! 0 = [2, 3, 4] ! 1"
proof -
  let ?z = "\<lparr>sizes = [], strides = [], storage_offset = 0, is_sparse = False\<rparr>"
  let ?u = "\<lparr>sizes = [2, 3, 4], strides = [12, 4, 1], storage_offset = 7, is_sparse = False\<rparr>"
  have w: "wf_tensor ?u" "sizes ?u \<noteq> []"
    "maybe_wrap_dim 0 (tensor_dim ?u) = Inr 0" "maybe_wrap_dim (- 2) (tensor_dim ?u) = Inr 1"
    "maybe_wrap_dim 2 (tensor_dim ?u) = Inr 2" "maybe_wrap_dim 1 (tensor_dim ?u) = Inr 1"
    by (simp_all add: wf_tensor_def maybe_wrap_dim_def tensor_dim_def smax64_def sless64 sle64)
  have f0: "select ?z 0 0 = Inl ZeroDimTensorError"
    using select_geometry [of ?z 0 0 0 0 0] by simp
  have f1: "select ?u 0 1 =
     Inr (View \<lparr>sizes = [3, 4], strides = [4, 1], storage_offset = 19, is_sparse = False\<rparr>) \<and>
     [3, 4 :: int64] ! 0 = [2, 3, 4] ! 1"
    using select_geometry [of ?u 0 1 0 0 0] w by simp
  have f2: "select ?u (- 2) (- 1) =
     Inr (View \<lparr>sizes = [2, 4], strides = [12, 1], storage_offset = 15, is_sparse = False\<rparr>)"
    using select_geometry [of ?u "- 2" "- 1" 1 1 0] w by simp
  have f3: "select ?u 2 (- 2) =
     Inr (View \<lparr>sizes = [2, 3], strides = [12, 4], storage_offset = 9, is_sparse = False\<rparr>)"
    using select_geometry [of ?u 2 "- 2" 2 2 0] w by simp
  have f4: "select ?u 1 3 = Inl IndexOutOfRange"
    using select_geometry [of ?u 1 3 1 1 0] w by simp
  show ?thesis
    using f0 f1 f2 f3 f4 by simp
qed

text \<open>
  The element of the selected view at a multi-index is the element of the source at that
  multi-index with the selected index inserted at the selected dimension.
\<close>

lemma select_address:
  assumes "k < length (strides t)" and "length idx = length (strides t) - 1"
  shows "address (t\<lparr>sizes := take k (sizes t) @ drop (Suc k) (sizes t),
                     strides := take k (strides t) @ drop (Suc k) (strides t),
                     storage_offset := storage_offset t + i * strides t ! k\<rparr>) idx =
         address t (take k idx @ i # drop k idx)"
proof -
  have s: "strides t = take k (strides t) @ strides t ! k # drop (Suc k) (strides t)"
    using assms(1) by (simp add: id_take_nth_drop)
  have l: "length (take k idx) = length (take k (strides t))"
    using assms by simp
  have "zip (insert_at idx k i) (strides t) =
        zip (take k idx @ i # drop k idx) (take k (strides t) @ strides t ! k # drop (Suc k) (strides t))"
    using s by (simp add: insert_at_def)
  also have "\<dots> = zip (take k idx) (take k (strides t)) @
        (i, strides t ! k) # zip (drop k idx) (drop (Suc k) (strides t))"
    using l by (simp del: length_take)
  finally have a: "zip (insert_at idx k i) (strides t) =
        zip (take k idx) (take k (strides t)) @
        (i, strides t ! k) # zip (drop k idx) (drop (Suc k) (strides t))" .
  have "zip idx (erase (strides t) k) =
        zip (take k idx @ drop k idx) (take k (strides t) @ drop (Suc k) (strides t))"
    by (simp add: erase_def)
  also have "\<dots> = zip (take k idx) (take k (strides t)) @
        zip (drop k idx) (drop (Suc k) (strides t))"
    using l by (simp del: length_take append_take_drop_id)
  finally have b: "zip idx (erase (strides t) k) =
        zip (take k idx) (take k (strides t)) @ zip (drop k idx) (drop (Suc k) (strides t))" .
  show ?thesis
    using a b by (simp add: address_def insert_at_def erase_def)
qed

section \<open>slice\<close>

lemma sint_slice_start:
  assumes "0 \<le> sint sz"
  shows "sint (slice_start sz start0) = spec_start (sint sz) (sint start0)"
proof -
  have a: "sint (start0 + sz) = sint start0 + sint sz" if "sint start0 < 0"
    using that assms sint64_range [of start0] sint64_range [of sz] by (intro sint64_add) auto
  show ?thesis
    using assms a
    by (auto simp: slice_start_def spec_start_def spec_clamp_def Let_def sless64 sle64)
qed

lemma sint_slice_end:
  assumes "0 \<le> sint sz" "sint start2 = spec_start (sint sz) (sint start0)"
  shows "sint (slice_end sz start2 end0) = spec_end (sint sz) (sint start0) (sint end0)"
proof -
  have a: "sint (end0 + sz) = sint end0 + sint sz" if "sint end0 < 0"
    using that assms sint64_range [of end0] sint64_range [of sz] by (intro sint64_add) auto
  show ?thesis
    using assms a
    by (auto simp: slice_end_def spec_end_def spec_start_def spec_clamp_def Let_def sless64 sle64)
qed

lemma spec_bounds:
  "0 \<le> sz \<Longrightarrow> 0 \<le> spec_start sz a \<and> spec_start sz a \<le> spec_end sz a b \<and> spec_end sz a b \<le> sz"
  by (auto simp: spec_end_def spec_start_def spec_clamp_def)

lemma sint_sdiv64_pos:
  assumes "0 \<le> sint a" "0 < sint b"
  shows "sint (sdiv64 a b) = sint a div sint b"
proof -
  have "sint a sdiv sint b = sint a div sint b"
    using assms by (simp add: signed_divide_int_def sgn_if)
  moreover have "0 \<le> sint a div sint b" "sint a div sint b \<le> sint a"
    using assms zdiv_mono2 [of "sint a" 1 "sint b"] by (auto simp: pos_imp_zdiv_nonneg_iff)
  ultimately show ?thesis
    using sint64_range [of a] by (simp add: sdiv64_def sint64_of_int)
qed

lemma round_up_div:
  assumes "0 < (b::int)"
  shows "((a + b - 1) div b - 1) * b < a \<and> a \<le> (a + b - 1) div b * b"
proof -
  define q where "q = (a + b - 1) div b"
  define r where "r = (a + b - 1) mod b"
  have e: "a + b - 1 = q * b + r"
    by (simp add: q_def r_def)
  have "0 \<le> r" "r < b"
    using assms by (simp_all add: r_def)
  then have "(q - 1) * b < a \<and> a \<le> q * b"
    using e by (auto simp: algebra_simps)
  then show ?thesis
    by (simp add: q_def)
qed


lemma word_of_sint_eq: "sint (w :: int64) = i \<Longrightarrow> w = word_of_int i"
  by auto

text \<open>
  What \<open>slice\<close> returns, in terms of the specification's bounds \<open>s\<close> and \<open>e\<close>.
\<close>

lemma slice_unfold:
  assumes "wf_tensor t" and "sizes t \<noteq> []" and "maybe_wrap_dim dim (tensor_dim t) = Inr d"
    and "k = nat (sint d)" and "sz = sint (sizes t ! k)"
    and "s = spec_start sz (sint start0)" and "e = spec_end sz (sint start0) (sint end0)"
  shows "slice zd t dim start0 end0 step =
     (if sint step \<le> 0 then Inl NonPositiveStep
      else if \<not> zd \<and> e = s then Inr Empty_tensor
      else Inr (View (t\<lparr>sizes := (sizes t)[k := sdiv64 (word_of_int (e - s) + step - 1) step],
                       strides := (strides t)[k := strides t ! k * step],
                       storage_offset := storage_offset t + word_of_int s * strides t ! k\<rparr>)))"
proof -
  have kb: "0 \<le> sint d" "k < length (sizes t)"
    using assms(1-4) maybe_wrap_dim_Inr [of t dim d] by auto
  have sz: "0 \<le> sz"
    using assms(1,5) kb by (simp add: wf_size_nonneg)
  have pos: "0 <s tensor_dim t"
    using assms(1,2) by (simp add: sless64 sint_tensor_dim)
  have b: "0 \<le> s" "s \<le> e" "e \<le> sz"
    using spec_bounds [OF sz, of "sint start0" "sint end0"] assms(6,7) by auto
  have ss: "sint (slice_start (sizes t ! k) start0) = s"
    using sz assms(5,6) by (simp add: sint_slice_start)
  have se: "sint (slice_end (sizes t ! k) (slice_start (sizes t ! k) start0) end0) = e"
    using sz assms(5,6,7) ss by (simp add: sint_slice_end)
  have szr: "sz < 2 ^ 63"
    using sint64_range [of "sizes t ! k"] assms(5) by simp
  have w1: "slice_start (sizes t ! k) start0 = word_of_int s"
    using ss by (rule word_of_sint_eq)
  have w2: "slice_end (sizes t ! k) (word_of_int s) end0 = word_of_int e"
    using se unfolding w1 by (rule word_of_sint_eq)
  have z: "word_of_int e - word_of_int s = (0 :: int64) \<longleftrightarrow> e = s"
  proof -
    have "sint (word_of_int (e - s) :: int64) = e - s"
      using b sz szr by (intro sint64_of_int) auto
    then have "word_of_int (e - s) = (0 :: int64) \<longleftrightarrow> e = s"
      by (auto simp: sint64_eq_iff)
    then show ?thesis
      by simp
  qed
  show ?thesis
    using assms(3) pos z
    by (simp add: slice_def Let_def as_strided3_def sle64 assms(4)[symmetric] w1 w2)
qed

text \<open>
  The size \<open>(len + step - 1) / step\<close> of the source is the rounded-up quotient when
  \<open>len + step - 1\<close> is an \<open>int64_t\<close>.
\<close>

lemma sint_round_up:
  assumes "0 \<le> len" and "0 < sint step" and "len + sint step \<le> 2 ^ 63"
  shows "sint (sdiv64 (word_of_int len + step - 1) step) = (len + sint step - 1) div sint step"
proof -
  have "word_of_int len + step - 1 = (word_of_int (len + sint step - 1) :: int64)"
    by simp
  moreover have "sint (word_of_int (len + sint step - 1) :: int64) = len + sint step - 1"
    using assms by (intro sint64_of_int) auto
  ultimately have "sint (word_of_int len + step - 1) = len + sint step - 1"
    by simp
  then show ?thesis
    using assms by (simp add: sint_sdiv64_pos)
qed

text \<open>
  C1, as the code has it. On a well-formed tensor of rank above 0, with \<open>d\<close> the normalized
  \<open>dim\<close>, \<open>s\<close> and \<open>e\<close> the specification's bounds (\<open>size(d)\<close> added to a negative
  \<open>start\<close> or \<open>end\<close>, both clamped into \<open>[0, size(d)]\<close>, \<open>end\<close> raised to \<open>start\<close>):
  a step that is not positive fails with \<open>NonPositiveStep\<close>; otherwise, when \<open>e = s\<close> and
  \<open>USE_TH_SIZE_ZERO_DIM\<close> is not defined, the result is the new empty tensor and no view of
  the source; otherwise it is the view whose size along \<open>d\<close> is
  \<open>(e - s + step - 1) / step\<close> in 64-bit arithmetic, whose stride along \<open>d\<close> is the old
  stride times \<open>step\<close> and whose offset is the old offset plus \<open>s\<close> times the old stride.
  When \<open>e - s + step - 1\<close> does not overflow, that size is the least \<open>n\<close> with
  \<open>e - s \<le> n * step\<close>, the ceiling of \<open>(e - s) / step\<close>.
\<close>

theorem slice_geometry:
  assumes "wf_tensor t" and "sizes t \<noteq> []" and "maybe_wrap_dim dim (tensor_dim t) = Inr d"
    and "k = nat (sint d)" and "sz = sint (sizes t ! k)"
    and "s = spec_start sz (sint start0)" and "e = spec_end sz (sint start0) (sint end0)"
    and "n = sdiv64 (word_of_int (e - s) + step - 1) step"
  shows "slice zd t dim start0 end0 step =
     (if sint step \<le> 0 then Inl NonPositiveStep
      else if \<not> zd \<and> e = s then Inr Empty_tensor
      else Inr (View (t\<lparr>sizes := (sizes t)[k := n],
                       strides := (strides t)[k := strides t ! k * step],
                       storage_offset := storage_offset t + word_of_int s * strides t ! k\<rparr>))) \<and>
     0 \<le> s \<and> s \<le> e \<and> e \<le> sz \<and>
     (0 < sint step \<and> e - s + sint step \<le> 2 ^ 63 \<longrightarrow>
        sint n = (e - s + sint step - 1) div sint step \<and>
        (sint n - 1) * sint step < e - s \<and> e - s \<le> sint n * sint step)"
proof -
  have "k < length (sizes t)"
    using assms(1-4) maybe_wrap_dim_Inr [of t dim d] by auto
  then have "0 \<le> sz"
    using assms(1,5) by (simp add: wf_size_nonneg)
  then have b: "0 \<le> s" "s \<le> e" "e \<le> sz"
    using spec_bounds [of sz "sint start0" "sint end0"] assms(6,7) by auto
  have main: "slice zd t dim start0 end0 step =
     (if sint step \<le> 0 then Inl NonPositiveStep
      else if \<not> zd \<and> e = s then Inr Empty_tensor
      else Inr (View (t\<lparr>sizes := (sizes t)[k := n],
                       strides := (strides t)[k := strides t ! k * step],
                       storage_offset := storage_offset t + word_of_int s * strides t ! k\<rparr>)))"
    unfolding assms(8) using assms(1-7) by (rule slice_unfold)
  have ceil: "sint n = (e - s + sint step - 1) div sint step \<and>
        (sint n - 1) * sint step < e - s \<and> e - s \<le> sint n * sint step"
    if h: "0 < sint step \<and> e - s + sint step \<le> 2 ^ 63"
  proof -
    have "sint n = (e - s + sint step - 1) div sint step"
      unfolding assms(8) using h b by (intro sint_round_up) auto
    then show ?thesis
      using round_up_div [of "sint step" "e - s"] h by simp
  qed
  show ?thesis
    using main b ceil by blast
qed

theorem slice_geometry_witness:
  "slice False \<lparr>sizes = [5, 3], strides = [3, 1], storage_offset = 0, is_sparse = False\<rparr> 0 1 4 2 =
     Inr (View \<lparr>sizes = [2, 3], strides = [6, 1], storage_offset = 3, is_sparse = False\<rparr>) \<and>
   sint (2 :: int64) = (4 - 1 + 2 - 1) div 2 \<and> (2 - 1) * 2 < (4 - 1 :: int) \<and> (4 - 1 :: int) \<le> 2 * 2"
proof -
  let ?t = "\<lparr>sizes = [5, 3], strides = [3, 1], storage_offset = 0, is_sparse = False\<rparr>"
  have h1: "wf_tensor ?t"
    by (simp add: wf_tensor_def sle64)
  have h2: "sizes ?t \<noteq> []"
    by simp
  have h3: "maybe_wrap_dim 0 (tensor_dim ?t) = Inr 0"
    by (simp add: maybe_wrap_dim_def tensor_dim_def smax64_def sless64 sle64)
  have h4: "(0 :: nat) = nat (sint (0 :: int64))"
    by simp
  have h5: "(5 :: int) = sint (sizes ?t ! 0)"
    by simp
  have h6: "(1 :: int) = spec_start 5 (sint (1 :: int64))"
    by (simp add: spec_start_def spec_clamp_def)
  have h7: "(4 :: int) = spec_end 5 (sint (1 :: int64)) (sint (4 :: int64))"
    by (simp add: spec_end_def spec_start_def spec_clamp_def)
  have h8: "(2 :: int64) = sdiv64 (word_of_int (4 - 1) + 2 - 1) 2"
    by (simp add: sdiv64_def)
  show ?thesis
    using slice_geometry [OF h1 h2 h3 h4 h5 h6 h7 h8, of False] by simp
qed

text \<open>
  C1 as stated fails where the slice is empty: on a tensor of sizes \<open>[5, 3]\<close>, the slice of
  dimension 0 from 2 to 2 is the new empty tensor, not the view of sizes \<open>[0, 3]\<close>, strides
  \<open>[3, 1]\<close> and offset 6.
\<close>

theorem slice_zero_length_counterexample:
  "slice False \<lparr>sizes = [5, 3], strides = [3, 1], storage_offset = 0, is_sparse = False\<rparr> 0 2 2 1 =
     Inr Empty_tensor \<and>
   slice False \<lparr>sizes = [5, 3], strides = [3, 1], storage_offset = 0, is_sparse = False\<rparr> 0 2 2 1 \<noteq>
     Inr (View \<lparr>sizes = [0, 3], strides = [3, 1], storage_offset = 6, is_sparse = False\<rparr>)"
  by (simp add: slice_def slice_start_def slice_end_def tensor_dim_def maybe_wrap_dim_def
      smax64_def sless64 sle64)

text \<open>
  The bound on \<open>e - s + step\<close> is needed: with the largest step, \<open>len + step - 1\<close> wraps
  around and the size along the dimension is 0, where the rounded-up quotient is 1.
\<close>

lemma slice_step_overflow:
  "slice False \<lparr>sizes = [5], strides = [1], storage_offset = 0, is_sparse = False\<rparr>
       0 0 5 9223372036854775807 =
     Inr (View \<lparr>sizes = [0], strides = [9223372036854775807], storage_offset = 0,
                  is_sparse = False\<rparr>)"
  by (simp add: slice_def slice_start_def slice_end_def tensor_dim_def maybe_wrap_dim_def
      smax64_def sless64 sle64 sdiv64_def as_strided3_def)

section \<open>narrow\<close>

lemma tensor_size_Inr:
  assumes "wf_tensor t" and "sizes t \<noteq> []" and "maybe_wrap_dim dim (tensor_dim t) = Inr d"
  shows "tensor_size t dim = Inr (sizes t ! nat (sint d))"
  using assms maybe_wrap_dim_Inr [OF assms] by (simp add: tensor_size_def)

lemma sdiv64_one: "sdiv64 a 1 = a"
  by (simp add: sdiv64_def)

text \<open>
  A slice with step 1 between bounds that lie inside the dimension: the view of \<open>e - s\<close>
  entries from \<open>s\<close> on, or the new empty tensor.
\<close>

lemma slice_inside:
  assumes "wf_tensor t" and "sizes t \<noteq> []" and "maybe_wrap_dim dim (tensor_dim t) = Inr d"
    and "k = nat (sint d)"
    and "0 \<le> sint start" and "0 \<le> sint len" and "sint start + sint len \<le> sint (sizes t ! k)"
  shows "slice zd t dim start (start + len) 1 =
     (if \<not> zd \<and> len = 0 then Inr Empty_tensor
      else Inr (View (t\<lparr>sizes := (sizes t)[k := len],
                       storage_offset := storage_offset t + start * strides t ! k\<rparr>)))"
proof -
  have kb: "k < length (sizes t)"
    using assms(1-4) maybe_wrap_dim_Inr [of t dim d] by auto
  have ks: "k < length (strides t)"
    using kb assms(1) by (simp add: wf_tensor_def)
  have a: "sint (start + len) = sint start + sint len"
    using assms(5-7) sint64_range [of "sizes t ! k"] by (intro sint64_add) auto
  have s: "spec_start (sint (sizes t ! k)) (sint start) = sint start"
    using assms(5-7) by (simp add: spec_start_def spec_clamp_def)
  have e: "spec_end (sint (sizes t ! k)) (sint start) (sint (start + len)) = sint start + sint len"
    using assms(5-7) by (simp add: a spec_end_def spec_start_def spec_clamp_def)
  have z: "sint len = 0 \<longleftrightarrow> len = 0"
    by (simp add: sint64_eq_iff)
  have u: "t\<lparr>sizes := (sizes t)[k := len], strides := strides t,
             storage_offset := storage_offset t + start * strides t ! k\<rparr> =
           t\<lparr>sizes := (sizes t)[k := len],
             storage_offset := storage_offset t + start * strides t ! k\<rparr>"
    by simp
  show ?thesis
    using slice_unfold [OF assms(1-4) refl s [symmetric] e [symmetric], of zd 1] z
    by (simp add: sdiv64_one u)
qed

lemma narrow_unfold:
  assumes "wf_tensor t" and "sizes t \<noteq> []" and "maybe_wrap_dim dim (tensor_dim t) = Inr d"
    and "k = nat (sint d)"
  shows "narrow zd t dim start len =
     (if 0 \<le> sint start \<and> (if zd then 0 \<le> sint len else 0 < sint len) \<and>
         sint start + sint len \<le> sint (sizes t ! k)
      then slice zd t dim start (start + len) 1 else Inl IndexOutOfRange)"
proof -
  have kb: "k < length (sizes t)"
    using assms maybe_wrap_dim_Inr [of t dim d] by auto
  have sz: "0 \<le> sint (sizes t ! k)"
    using assms(1) kb by (simp add: wf_size_nonneg)
  have pos: "0 <s tensor_dim t"
    using assms(1,2) by (simp add: sless64 sint_tensor_dim)
  have d: "sint (sizes t ! k - len) = sint (sizes t ! k) - sint len" if "0 \<le> sint len"
    using that sz sint64_range [of "sizes t ! k"] sint64_range [of len]
    by (intro sint64_sub) auto
  show ?thesis
    using pos tensor_size_Inr [OF assms(1-3)] d
    by (auto simp: narrow_def sless64 sle64 assms(4))
qed

text \<open>
  C5. On a tensor of rank 0, \<open>narrow\<close> fails. On a well-formed tensor of rank above 0, with
  \<open>d\<close> the normalized \<open>dim\<close>, \<open>narrow\<close> returns \<open>slice(dim, start, start + length, 1)\<close> when
  \<open>start \<ge> 0\<close>, \<open>length > 0\<close> and \<open>start + length \<le> size(d)\<close>, and fails with
  \<open>IndexOutOfRange\<close> otherwise. That slice is the view whose size along \<open>d\<close> is \<open>length\<close>
  and whose offset is advanced by \<open>start * stride(d)\<close>. Narrowing a tensor of sizes \<open>[5, 3]\<close>
  along dimension 0 with start 1 and length 2 gives sizes \<open>[2, 3]\<close> and the offset advanced
  by \<open>1 * stride(0)\<close>.
\<close>

theorem narrow_is_slice:
  "(sizes t = [] \<longrightarrow> narrow False t dim start len = Inl ZeroDimTensorError) \<and>
   (wf_tensor t \<and> sizes t \<noteq> [] \<and> maybe_wrap_dim dim (tensor_dim t) = Inr d \<longrightarrow>
      narrow False t dim start len =
        (if 0 \<le> sint start \<and> 0 < sint len \<and> sint start + sint len \<le> sint (sizes t ! nat (sint d))
         then slice False t dim start (start + len) 1 else Inl IndexOutOfRange) \<and>
      (0 \<le> sint start \<and> 0 < sint len \<and> sint start + sint len \<le> sint (sizes t ! nat (sint d)) \<longrightarrow>
         slice False t dim start (start + len) 1 =
           Inr (View (t\<lparr>sizes := (sizes t)[nat (sint d) := len],
                        storage_offset := storage_offset t + start * strides t ! nat (sint d)\<rparr>)))) \<and>
   (wf_tensor t \<and> sizes t = [5, 3] \<longrightarrow>
      narrow False t 0 1 2 =
        Inr (View (t\<lparr>sizes := [2, 3], storage_offset := storage_offset t + 1 * strides t ! 0\<rparr>)))"
proof (intro conjI impI)
  assume "sizes t = []"
  then show "narrow False t dim start len = Inl ZeroDimTensorError"
    by (simp add: narrow_def tensor_dim_def)
next
  assume a: "wf_tensor t \<and> sizes t \<noteq> [] \<and> maybe_wrap_dim dim (tensor_dim t) = Inr d"
  then show "narrow False t dim start len =
        (if 0 \<le> sint start \<and> 0 < sint len \<and> sint start + sint len \<le> sint (sizes t ! nat (sint d))
         then slice False t dim start (start + len) 1 else Inl IndexOutOfRange)"
    using narrow_unfold [of t dim d "nat (sint d)" False start len] by simp
  assume b: "0 \<le> sint start \<and> 0 < sint len \<and> sint start + sint len \<le> sint (sizes t ! nat (sint d))"
  then have "len \<noteq> 0"
    by auto
  then show "slice False t dim start (start + len) 1 =
           Inr (View (t\<lparr>sizes := (sizes t)[nat (sint d) := len],
                        storage_offset := storage_offset t + start * strides t ! nat (sint d)\<rparr>))"
    using a b slice_inside [of t dim d "nat (sint d)" start len False] by simp
next
  assume a: "wf_tensor t \<and> sizes t = [5, 3]"
  have w: "maybe_wrap_dim 0 (tensor_dim t) = Inr 0"
    using a by (simp add: maybe_wrap_dim_def tensor_dim_def smax64_def sless64 sle64)
  have "narrow False t 0 1 2 = slice False t 0 1 (1 + 2) 1"
    using a w narrow_unfold [of t 0 0 0 False 1 2] by simp
  also have "\<dots> = Inr (View (t\<lparr>sizes := (sizes t)[0 := 2],
                        storage_offset := storage_offset t + 1 * strides t ! 0\<rparr>))"
    using a w slice_inside [of t 0 0 0 1 2 False] by simp
  finally show "narrow False t 0 1 2 =
        Inr (View (t\<lparr>sizes := [2, 3], storage_offset := storage_offset t + 1 * strides t ! 0\<rparr>))"
    using a by simp
qed

theorem narrow_is_slice_witness:
  "narrow False \<lparr>sizes = [], strides = [], storage_offset = 0, is_sparse = False\<rparr> 0 0 1 =
     Inl ZeroDimTensorError \<and>
   narrow False \<lparr>sizes = [5, 3], strides = [3, 1], storage_offset = 4, is_sparse = False\<rparr> 0 1 2 =
     Inr (View \<lparr>sizes = [2, 3], strides = [3, 1], storage_offset = 7, is_sparse = False\<rparr>) \<and>
   narrow False \<lparr>sizes = [5, 3], strides = [3, 1], storage_offset = 4, is_sparse = False\<rparr> (- 1) 1 2 =
     Inr (View \<lparr>sizes = [5, 2], strides = [3, 1], storage_offset = 5, is_sparse = False\<rparr>)"
proof -
  let ?t = "\<lparr>sizes = [5, 3], strides = [3, 1], storage_offset = 4, is_sparse = False\<rparr>"
  have w: "wf_tensor ?t \<and> sizes ?t \<noteq> [] \<and> maybe_wrap_dim (- 1) (tensor_dim ?t) = Inr 1"
    by (simp add: wf_tensor_def maybe_wrap_dim_def tensor_dim_def smax64_def sless64 sle64)
  show ?thesis
    using narrow_is_slice [of "\<lparr>sizes = [], strides = [], storage_offset = 0, is_sparse = False\<rparr>" 0 0 1]
      narrow_is_slice [of ?t "- 1" 1 2 1] w
    by simp
qed

section \<open>split_with_sizes\<close>

text \<open>A narrow of positive length, without \<open>USE_TH_SIZE_ZERO_DIM\<close>.\<close>

lemma narrow_view:
  assumes "wf_tensor t" and "sizes t \<noteq> []" and "maybe_wrap_dim dim (tensor_dim t) = Inr d"
    and "k = nat (sint d)"
  shows "narrow False t dim start len =
     (if 0 \<le> sint start \<and> 0 < sint len \<and> sint start + sint len \<le> sint (sizes t ! k)
      then Inr (View (t\<lparr>sizes := (sizes t)[k := len],
                       storage_offset := storage_offset t + start * strides t ! k\<rparr>))
      else Inl IndexOutOfRange)"
proof (cases "0 \<le> sint start \<and> 0 < sint len \<and> sint start + sint len \<le> sint (sizes t ! k)")
  case True
  then have "len \<noteq> 0"
    by auto
  then show ?thesis
    using True narrow_unfold [OF assms, of False start len]
      slice_inside [OF assms, of start len False] by simp
next
  case False
  then show ?thesis
    using narrow_unfold [OF assms, of False start len] by auto
qed

lemma sum_sint_nonneg: "\<forall>l \<in> set ls. 0 < sint (l :: int64) \<Longrightarrow> 0 \<le> sum_list (map sint ls)"
  by (induction ls) auto

lemma sizes_loop_positive:
  assumes "wf_tensor t" and "sizes t \<noteq> []" and "maybe_wrap_dim dim (tensor_dim t) = Inr d"
    and "k = nat (sint d)"
  shows "\<forall>l \<in> set ls. 0 < sint l \<Longrightarrow> 0 \<le> sint start \<Longrightarrow> sint start \<le> sint (sizes t ! k) \<Longrightarrow>
     sizes_loop False t dim start ls =
       (if sint start + sum_list (map sint ls) \<le> sint (sizes t ! k)
        then Inr (narrow_views t k start ls, word_of_int (sint start + sum_list (map sint ls)))
        else Inl IndexOutOfRange)"
proof (induction ls arbitrary: start)
  case Nil
  then show ?case by simp
next
  case (Cons len ls)
  have p: "0 < sint len" "\<forall>l \<in> set ls. 0 < sint l"
    using Cons.prems(1) by auto
  have r: "0 \<le> sum_list (map sint ls)"
    using p(2) by (rule sum_sint_nonneg)
  show ?case
  proof (cases "sint start + sint len \<le> sint (sizes t ! k)")
    case True
    have a: "sint (start + len) = sint start + sint len"
      using True p(1) Cons.prems(2) sint64_range [of "sizes t ! k"] by (intro sint64_add) auto
    have "sizes_loop False t dim (start + len) ls =
       (if sint (start + len) + sum_list (map sint ls) \<le> sint (sizes t ! k)
        then Inr (narrow_views t k (start + len) ls,
                  word_of_int (sint (start + len) + sum_list (map sint ls)))
        else Inl IndexOutOfRange)"
      using p(2) a True Cons.prems(2) p(1) by (intro Cons.IH) auto
    then show ?thesis
      using True p(1) Cons.prems(2) a narrow_view [OF assms, of start len]
      by (simp add: sless64 add.assoc)
  next
    case False
    then show ?thesis
      using p(1) r Cons.prems(2) narrow_view [OF assms, of start len]
      by (simp add: sless64)
  qed
qed

lemma sizes_loop_nonpositive:
  assumes "wf_tensor t" and "sizes t \<noteq> []" and "maybe_wrap_dim dim (tensor_dim t) = Inr d"
  shows "\<exists>l \<in> set ls. sint l \<le> 0 \<Longrightarrow> isl (sizes_loop False t dim start ls)"
proof (induction ls arbitrary: start)
  case Nil
  then show ?case by simp
next
  case (Cons len ls)
  show ?case
  proof (cases "sint len \<le> 0")
    case True
    then show ?thesis
      using narrow_view [OF assms refl, of start len] by (simp add: sless64)
  next
    case False
    then have "isl (sizes_loop False t dim (start + len) ls)"
      using Cons.prems by (intro Cons.IH) auto
    then show ?thesis
      by (auto simp: isl_def split: sum.splits)
  qed
qed


lemma length_narrow_views: "length (narrow_views t k start ls) = length ls"
  by (induction ls arbitrary: start) auto

text \<open>
  C6, as the code has it, without \<open>USE_TH_SIZE_ZERO_DIM\<close>. On a tensor of rank 0,
  \<open>split_with_sizes\<close> fails. On a well-formed tensor of rank above 0, with \<open>d\<close> the
  normalized \<open>dim\<close>: when every entry is positive, it returns one view per entry at
  consecutive start positions if the entries sum to \<open>size(d)\<close>, fails with \<open>ShapeMismatch\<close>
  if they sum to less, and fails with the \<open>IndexOutOfRange\<close> of \<open>narrow\<close> if they sum to
  more; when an entry is negative or zero, it fails.
\<close>

theorem split_with_sizes_positive:
  "(sizes t = [] \<longrightarrow> split_with_sizes False t ls dim = Inl ZeroDimTensorError) \<and>
   (wf_tensor t \<and> sizes t \<noteq> [] \<and> maybe_wrap_dim dim (tensor_dim t) = Inr d \<longrightarrow>
      ((\<forall>l \<in> set ls. 0 < sint l) \<longrightarrow>
         split_with_sizes False t ls dim =
           (if sum_list (map sint ls) = sint (sizes t ! nat (sint d))
            then Inr (narrow_views t (nat (sint d)) 0 ls)
            else if sum_list (map sint ls) < sint (sizes t ! nat (sint d))
            then Inl ShapeMismatch else Inl IndexOutOfRange) \<and>
         length (narrow_views t (nat (sint d)) 0 ls) = length ls) \<and>
      ((\<exists>l \<in> set ls. sint l \<le> 0) \<longrightarrow> isl (split_with_sizes False t ls dim)))"
proof (intro conjI impI)
  assume "sizes t = []"
  then show "split_with_sizes False t ls dim = Inl ZeroDimTensorError"
    by (simp add: split_with_sizes_def tensor_dim_def)
next
  assume a: "wf_tensor t \<and> sizes t \<noteq> [] \<and> maybe_wrap_dim dim (tensor_dim t) = Inr d"
  assume p: "\<forall>l \<in> set ls. 0 < sint l"
  let ?sz = "sint (sizes t ! nat (sint d))"
  let ?sum = "sum_list (map sint ls)"
  have kb: "nat (sint d) < length (sizes t)"
    using a maybe_wrap_dim_Inr [of t dim d] by auto
  have sz: "0 \<le> ?sz"
    using a kb by (simp add: wf_size_nonneg)
  have n0: "tensor_dim t \<noteq> 0"
    using a sint_tensor_dim [of t] by (auto simp: sint64_eq_iff)
  have ts: "tensor_size t dim = Inr (sizes t ! nat (sint d))"
    using a by (intro tensor_size_Inr) auto
  have loop: "sizes_loop False t dim 0 ls =
       (if ?sum \<le> ?sz then Inr (narrow_views t (nat (sint d)) 0 ls, word_of_int ?sum)
        else Inl IndexOutOfRange)"
    using a p sz sizes_loop_positive [of t dim d "nat (sint d)" ls 0] by simp
  have fin: "word_of_int ?sum = sizes t ! nat (sint d) \<longleftrightarrow> ?sum = ?sz" if "?sum \<le> ?sz"
  proof -
    have "sint (word_of_int ?sum :: int64) = ?sum"
      using that sum_sint_nonneg [OF p] sint64_range [of "sizes t ! nat (sint d)"]
      by (intro sint64_of_int) auto
    then show ?thesis
      by (auto simp: sint64_eq_iff)
  qed
  show "split_with_sizes False t ls dim =
           (if ?sum = ?sz then Inr (narrow_views t (nat (sint d)) 0 ls)
            else if ?sum < ?sz then Inl ShapeMismatch else Inl IndexOutOfRange)"
    using n0 ts loop fin by (auto simp: split_with_sizes_def)
next
  show "length (narrow_views t (nat (sint d)) 0 ls) = length ls"
    by (rule length_narrow_views)
next
  assume a: "wf_tensor t \<and> sizes t \<noteq> [] \<and> maybe_wrap_dim dim (tensor_dim t) = Inr d"
  assume "\<exists>l \<in> set ls. sint l \<le> 0"
  then have "isl (sizes_loop False t dim 0 ls)"
    using a by (intro sizes_loop_nonpositive) auto
  then show "isl (split_with_sizes False t ls dim)"
    by (auto simp: split_with_sizes_def isl_def split: sum.splits)
qed

theorem split_with_sizes_positive_witness:
  "split_with_sizes False \<lparr>sizes = [], strides = [], storage_offset = 0, is_sparse = False\<rparr> [1] 0 =
     Inl ZeroDimTensorError \<and>
   split_with_sizes False \<lparr>sizes = [5, 3], strides = [3, 1], storage_offset = 0, is_sparse = False\<rparr>
       [2, 3] 0 =
     Inr [View \<lparr>sizes = [2, 3], strides = [3, 1], storage_offset = 0, is_sparse = False\<rparr>,
          View \<lparr>sizes = [3, 3], strides = [3, 1], storage_offset = 6, is_sparse = False\<rparr>] \<and>
   split_with_sizes False \<lparr>sizes = [5, 3], strides = [3, 1], storage_offset = 0, is_sparse = False\<rparr>
       [2, 2] 0 = Inl ShapeMismatch \<and>
   isl (split_with_sizes False
       \<lparr>sizes = [5, 3], strides = [3, 1], storage_offset = 0, is_sparse = False\<rparr> [2, - 1] 0)"
proof -
  let ?t = "\<lparr>sizes = [5, 3], strides = [3, 1], storage_offset = 0, is_sparse = False\<rparr>"
  have w: "wf_tensor ?t \<and> sizes ?t \<noteq> [] \<and> maybe_wrap_dim 0 (tensor_dim ?t) = Inr 0"
    by (simp add: wf_tensor_def maybe_wrap_dim_def tensor_dim_def smax64_def sless64 sle64)
  show ?thesis
    using split_with_sizes_positive
        [of "\<lparr>sizes = [], strides = [], storage_offset = 0, is_sparse = False\<rparr>" "[1]" 0]
      split_with_sizes_positive [of ?t "[2, 3]" 0 0]
      split_with_sizes_positive [of ?t "[2, 2]" 0 0]
      split_with_sizes_positive [of ?t "[2, - 1]" 0 0] w
    by simp
qed

text \<open>
  C6 as stated fails on a zero entry and on the kind of the failure: on a tensor of sizes
  \<open>[5, 3]\<close>, the list \<open>[2, 0, 3]\<close> has no negative entry and sums to 5, yet is rejected; the
  list \<open>[2, 4]\<close> sums to 6 and is rejected with \<open>IndexOutOfRange\<close>, not \<open>ShapeMismatch\<close>.
\<close>

theorem split_with_sizes_zero_entry_counterexample:
  "split_with_sizes False \<lparr>sizes = [5, 3], strides = [3, 1], storage_offset = 0, is_sparse = False\<rparr>
       [2, 0, 3] 0 = Inl IndexOutOfRange \<and>
   split_with_sizes False \<lparr>sizes = [5, 3], strides = [3, 1], storage_offset = 0, is_sparse = False\<rparr>
       [2, 4] 0 = Inl IndexOutOfRange"
  by (simp add: split_with_sizes_def tensor_size_def narrow_def slice_def slice_start_def
      slice_end_def tensor_dim_def maybe_wrap_dim_def smax64_def sless64 sle64 sdiv64_def
      as_strided3_def)

section \<open>split\<close>

lemma collect_all:
  "(\<And>x. x \<in> set xs \<Longrightarrow> f x = Inr (g x)) \<Longrightarrow> collect f xs = Inr (map g xs)"
  by (induction xs) auto

lemma collect_first_fails: "f x = Inl e \<Longrightarrow> collect f (x # xs) = Inl e"
  by simp

text \<open>The number of parts and the length of the last one, on integers.\<close>

lemma split_counts:
  assumes "0 < (ss::int)" and "0 < sz" and "q = (sz + ss - 1) div ss"
  shows "1 \<le> q \<and> (q - 1) * ss < sz \<and> sz \<le> q * ss \<and>
         0 < sz - ss * (q - 1) \<and> sz - ss * (q - 1) \<le> ss"
proof -
  have r: "(q - 1) * ss < sz \<and> sz \<le> q * ss"
    unfolding assms(3) using assms(1) by (rule round_up_div)
  have "0 < q * ss"
    using r assms(2) by linarith
  then have "0 < q"
    using assms(1) by (simp add: zero_less_mult_iff)
  then show ?thesis
    using r by (auto simp: algebra_simps)
qed

lemma split_unfold:
  assumes "wf_tensor t" and "sizes t \<noteq> []" and "maybe_wrap_dim dim (tensor_dim t) = Inr d"
    and "k = nat (sint d)" and "sz = sint (sizes t ! k)" and "ss = sint split_size"
    and "q = (sz + ss - 1) div ss"
    and "0 < ss" and "0 < sz" and "sz + ss \<le> 2 ^ 63"
  shows "split capacity False t split_size dim =
     (if capacity < nat q then Inl AllocationError else
     Inr (map (\<lambda>i. View (t\<lparr>sizes := (sizes t)
                    [k := if int i < q - 1 then split_size else word_of_int (sz - ss * (q - 1))],
                  storage_offset := storage_offset t + word_of_nat i * split_size * strides t ! k\<rparr>))
            [0 ..< nat q]))"
proof -
  have c: "1 \<le> q" "(q - 1) * ss < sz" "sz \<le> q * ss" "0 < sz - ss * (q - 1)" "sz - ss * (q - 1) \<le> ss"
    using split_counts [OF assms(8,9,7)] by auto
  have szr: "sz < 2 ^ 63" and ssr: "ss < 2 ^ 63"
    using sint64_range [of "sizes t ! k"] sint64_range [of split_size] assms(5,6) by auto
  have qle: "q \<le> sz"
  proof -
    have "(q - 1) * 1 \<le> (q - 1) * ss"
      using c(1) assms(8) by (intro mult_left_mono) auto
    then show ?thesis
      using c(2) by simp
  qed
  have n0: "tensor_dim t \<noteq> 0"
    using assms(1,2) sint_tensor_dim [of t] by (auto simp: sint64_eq_iff)
  have ts: "tensor_size t dim = Inr (sizes t ! k)"
    using assms(1-4) by (simp add: tensor_size_Inr)
  have nz: "split_size \<noteq> 0"
    using assms(6,8) by auto
  have sq: "sint (sdiv64 (sizes t ! k + split_size - 1) split_size) = q"
    using sint_round_up [of sz split_size] assms(5-10) by simp
  define num where "num = smax64 (sdiv64 (sizes t ! k + split_size - 1) split_size) 1"
  have num: "sint num = q"
    using sq c(1) by (simp add: num_def smax64_def sless64)
  have num1: "sint (num - 1) = q - 1"
    using num c(1) qle szr by (subst sint64_sub) auto
  define lst where "lst = split_size - (split_size * num - sizes t ! k)"
  have lw: "lst = word_of_int (sz - ss * (q - 1))"
  proof -
    have "lst = word_of_int (ss - (ss * q - sz))"
      by (simp add: lst_def assms(5,6) num [symmetric])
    also have "ss - (ss * q - sz) = sz - ss * (q - 1)"
      by (simp add: algebra_simps)
    finally show ?thesis .
  qed
  have ls: "sint lst = sz - ss * (q - 1)"
    unfolding lw using c(4,5) ssr by (intro sint64_of_int) auto
  have each: "narrow False t dim (word_of_nat i * split_size)
                (if word_of_nat i <s num - 1 then split_size else lst) =
              Inr (View (t\<lparr>sizes := (sizes t)
                    [k := if int i < q - 1 then split_size else word_of_int (sz - ss * (q - 1))],
                  storage_offset := storage_offset t + word_of_nat i * split_size * strides t ! k\<rparr>))"
    if "i \<in> set [0 ..< nat q]" for i
  proof -
    have iq: "int i \<le> q - 1"
      using that by auto
    have "int i < 2 ^ 63"
      using iq qle szr by linarith
    then have ir: "i < 2 ^ 63"
      by simp
    have si: "sint (word_of_nat i :: int64) = int i"
      using ir by (rule sint64_of_nat)
    have m: "int i * ss \<le> (q - 1) * ss"
      using iq assms(8) by (intro mult_right_mono) auto
    have "0 \<le> int i * ss"
      using assms(8) by simp
    then have lo: "- (2 ^ 63) \<le> int i * ss"
      by (rule order_trans [rotated]) simp
    have hi: "int i * ss < 2 ^ 63"
      using m c(2) szr by linarith
    have st: "sint (word_of_nat i * split_size) = int i * ss"
      using lo hi sint64_mult [of "word_of_nat i" split_size] unfolding si assms(6) by blast
    show ?thesis
    proof (cases "int i < q - 1")
      case True
      have "(int i + 1) * ss \<le> (q - 1) * ss"
        using True assms(8) by (intro mult_right_mono) auto
      then have "int i * ss + ss \<le> sz"
        using c(2) by (simp add: algebra_simps)
      then show ?thesis
        using True st si num1 assms(8) narrow_view [OF assms(1-4), of "word_of_nat i * split_size" split_size]
        by (simp add: sless64 assms(5,6)[symmetric])
    next
      case False
      then have e: "int i = q - 1"
        using iq by simp
      have "int i * ss + (sz - ss * (q - 1)) \<le> sz"
        by (simp add: e algebra_simps)
      then show ?thesis
        using False st si num1 ls lw c(4) assms(8)
          narrow_view [OF assms(1-4), of "word_of_nat i * split_size" lst]
        by (simp add: sless64 assms(5,6)[symmetric])
    qed
  qed
  have sp: "split capacity False t split_size dim =
      (if capacity < nat q then Inl AllocationError else
       collect (\<lambda>i. narrow False t dim (word_of_nat i * split_size)
                (if word_of_nat i <s num - 1 then split_size else lst)) [0 ..< nat q])"
    unfolding lst_def num_def using n0 ts nz assms(6,8) num [unfolded num_def]
    by (simp add: split_def Let_def sle64 sless64)
  have co: "collect (\<lambda>i. narrow False t dim (word_of_nat i * split_size)
                (if word_of_nat i <s num - 1 then split_size else lst)) [0 ..< nat q] =
      Inr (map (\<lambda>i. View (t\<lparr>sizes := (sizes t)
                    [k := if int i < q - 1 then split_size else word_of_int (sz - ss * (q - 1))],
                  storage_offset := storage_offset t + word_of_nat i * split_size * strides t ! k\<rparr>))
            [0 ..< nat q])"
    using each by (rule collect_all)
  show ?thesis
    unfolding sp co by (rule refl)
qed


lemma tensor_dim_nonzero: "wf_tensor t \<Longrightarrow> sizes t \<noteq> [] \<Longrightarrow> tensor_dim t \<noteq> 0"
  using sint_tensor_dim [of t] by (auto simp: sint64_eq_iff)

text \<open>Without \<open>USE_TH_SIZE_ZERO_DIM\<close>, a dimension of size 0 cannot be split.\<close>

lemma split_empty_dimension:
  assumes "wf_tensor t" and "sizes t \<noteq> []" and "maybe_wrap_dim dim (tensor_dim t) = Inr d"
    and "sizes t ! nat (sint d) = 0" and "0 \<le> sint split_size"
  shows "split capacity False t split_size dim =
     (if capacity < 1 then Inl AllocationError else Inl IndexOutOfRange)"
proof -
  have ts: "tensor_size t dim = Inr 0"
    using assms(1-4) tensor_size_Inr [of t dim d] by simp
  have nv: "narrow False t dim 0 0 = Inl IndexOutOfRange"
    using narrow_view [OF assms(1-3) refl, of 0 0] by simp
  have num: "(if split_size \<noteq> 0 then smax64 (sdiv64 (0 + split_size - 1) split_size) 1 else 1) = 1"
  proof (cases "split_size = 0")
    case True
    then show ?thesis by simp
  next
    case False
    then have p: "0 < sint split_size"
      using assms(5) by (auto simp: sint64_eq_iff order_less_le)
    have "sint (split_size - 1) = sint split_size - 1"
      using p sint64_range [of split_size] by (subst sint64_sub) auto
    then have "sint (sdiv64 (split_size - 1) split_size) = (sint split_size - 1) div sint split_size"
      using p by (simp add: sint_sdiv64_pos)
    also have "\<dots> = 0"
      using p by (simp add: div_pos_pos_trivial)
    finally show ?thesis
      by (simp add: smax64_def sless64)
  qed
  show ?thesis
    using tensor_dim_nonzero [OF assms(1,2)] assms(5) ts
    by (simp add: split_def Let_def num sle64 sless64 nv)
qed

lemma divides_last_part:
  assumes "0 < (ss::int)" and "(q - 1) * ss < sz" and "sz \<le> q * ss" and "ss dvd sz"
  shows "sz - ss * (q - 1) = ss"
proof -
  obtain m where m: "sz = ss * m"
    using assms(4) by (auto simp: dvd_def)
  have "(q - 1) * ss < m * ss" "m * ss \<le> q * ss"
    using assms(2,3) m by (simp_all add: mult.commute)
  then have "q - 1 < m" "m \<le> q"
    using assms(1) by (simp_all add: mult_less_cancel_right mult_le_cancel_right)
  then have "m = q"
    by simp
  then show ?thesis
    using m by (simp add: algebra_simps)
qed

text \<open>
  C7, as the code has it, without \<open>USE_TH_SIZE_ZERO_DIM\<close>. \<open>split\<close> fails on a tensor of
  rank 0, on a negative \<open>split_size\<close>, and on \<open>split_size = 0\<close> when \<open>size(d)\<close> is not 0;
  it also fails whenever \<open>size(d)\<close> is 0, since \<open>narrow\<close> accepts no length 0. With
  \<open>split_size > 0\<close>, \<open>size(d) > 0\<close> and \<open>size(d) + split_size - 1\<close> an \<open>int64_t\<close>, let \<open>q\<close>
  be the rounded-up quotient of \<open>size(d)\<close> by \<open>split_size\<close>: when the vector of line 347
  cannot hold \<open>q\<close> tensors, \<open>split\<close> fails before any view is made; otherwise it returns
  \<open>q\<close> views, where view \<open>i\<close> starts at \<open>i * split_size\<close>, every view but the last has
  length \<open>split_size\<close>, and the last has length \<open>size(d) - split_size * (q - 1)\<close>, which is
  positive, at most \<open>split_size\<close>, and equal to it when \<open>split_size\<close> divides \<open>size(d)\<close>.
\<close>

theorem split_parts:
  "(sizes t = [] \<longrightarrow> split capacity False t split_size dim = Inl ZeroDimTensorError) \<and>
   (wf_tensor t \<and> sizes t \<noteq> [] \<and> sint split_size < 0 \<longrightarrow>
      split capacity False t split_size dim = Inl InvalidSplitSize) \<and>
   (wf_tensor t \<and> sizes t \<noteq> [] \<and> maybe_wrap_dim dim (tensor_dim t) = Inr d \<and>
    k = nat (sint d) \<and> sz = sint (sizes t ! k) \<and> ss = sint split_size \<and>
    q = (sz + ss - 1) div ss \<longrightarrow>
      (ss = 0 \<and> sz \<noteq> 0 \<longrightarrow> split capacity False t split_size dim = Inl InvalidSplitSize) \<and>
      (0 \<le> ss \<and> sz = 0 \<longrightarrow>
         split capacity False t split_size dim =
           (if capacity < 1 then Inl AllocationError else Inl IndexOutOfRange)) \<and>
      (0 < ss \<and> 0 < sz \<and> sz + ss \<le> 2 ^ 63 \<longrightarrow>
         split capacity False t split_size dim =
           (if capacity < nat q then Inl AllocationError else
            Inr (map (\<lambda>i. View (t\<lparr>sizes := (sizes t)
                       [k := if int i < q - 1 then split_size else word_of_int (sz - ss * (q - 1))],
                     storage_offset :=
                       storage_offset t + word_of_nat i * split_size * strides t ! k\<rparr>))
                  [0 ..< nat q])) \<and>
         1 \<le> q \<and> (q - 1) * ss < sz \<and> sz \<le> q * ss \<and>
         0 < sz - ss * (q - 1) \<and> sz - ss * (q - 1) \<le> ss \<and>
         (ss dvd sz \<longrightarrow> sz - ss * (q - 1) = ss)))"
proof (intro conjI impI)
  assume "sizes t = []"
  then show "split capacity False t split_size dim = Inl ZeroDimTensorError"
    by (simp add: split_def tensor_dim_def)
next
  assume "wf_tensor t \<and> sizes t \<noteq> [] \<and> sint split_size < 0"
  then show "split capacity False t split_size dim = Inl InvalidSplitSize"
    using tensor_dim_nonzero [of t] by (simp add: split_def sle64)
next
  assume a: "wf_tensor t \<and> sizes t \<noteq> [] \<and> maybe_wrap_dim dim (tensor_dim t) = Inr d \<and>
    k = nat (sint d) \<and> sz = sint (sizes t ! k) \<and> ss = sint split_size \<and>
    q = (sz + ss - 1) div ss"
  assume "ss = 0 \<and> sz \<noteq> 0"
  then show "split capacity False t split_size dim = Inl InvalidSplitSize"
    using a tensor_dim_nonzero [of t] tensor_size_Inr [of t dim d]
    by (auto simp: split_def sle64 sless64)
next
  assume a: "wf_tensor t \<and> sizes t \<noteq> [] \<and> maybe_wrap_dim dim (tensor_dim t) = Inr d \<and>
    k = nat (sint d) \<and> sz = sint (sizes t ! k) \<and> ss = sint split_size \<and>
    q = (sz + ss - 1) div ss"
  assume "0 \<le> ss \<and> sz = 0"
  then show "split capacity False t split_size dim =
      (if capacity < 1 then Inl AllocationError else Inl IndexOutOfRange)"
    using a by (intro split_empty_dimension [of t dim d]) (auto simp: sint64_eq_iff)
next
  assume a: "wf_tensor t \<and> sizes t \<noteq> [] \<and> maybe_wrap_dim dim (tensor_dim t) = Inr d \<and>
    k = nat (sint d) \<and> sz = sint (sizes t ! k) \<and> ss = sint split_size \<and>
    q = (sz + ss - 1) div ss"
  assume b: "0 < ss \<and> 0 < sz \<and> sz + ss \<le> 2 ^ 63"
  show "split capacity False t split_size dim =
           (if capacity < nat q then Inl AllocationError else
            Inr (map (\<lambda>i. View (t\<lparr>sizes := (sizes t)
                       [k := if int i < q - 1 then split_size else word_of_int (sz - ss * (q - 1))],
                     storage_offset :=
                       storage_offset t + word_of_nat i * split_size * strides t ! k\<rparr>))
                  [0 ..< nat q]))"
    using a b by (intro split_unfold [of t dim d]) auto
  have c: "1 \<le> q \<and> (q - 1) * ss < sz \<and> sz \<le> q * ss \<and>
         0 < sz - ss * (q - 1) \<and> sz - ss * (q - 1) \<le> ss"
    using a b by (intro split_counts) auto
  then show "1 \<le> q" "(q - 1) * ss < sz" "sz \<le> q * ss"
    "0 < sz - ss * (q - 1)" "sz - ss * (q - 1) \<le> ss"
    by auto
  show "sz - ss * (q - 1) = ss" if "ss dvd sz"
    using b c that by (intro divides_last_part) auto
qed


theorem split_parts_witness:
  "split 1152921504606846975 False
       \<lparr>sizes = [], strides = [], storage_offset = 0, is_sparse = False\<rparr> 2 0 =
     Inl ZeroDimTensorError \<and>
   split 1152921504606846975 False
       \<lparr>sizes = [5, 3], strides = [3, 1], storage_offset = 0, is_sparse = False\<rparr> (- 1) 0 =
     Inl InvalidSplitSize \<and>
   split 1152921504606846975 False
       \<lparr>sizes = [5, 3], strides = [3, 1], storage_offset = 0, is_sparse = False\<rparr> 0 0 =
     Inl InvalidSplitSize \<and>
   split 1152921504606846975 False
       \<lparr>sizes = [0], strides = [1], storage_offset = 0, is_sparse = False\<rparr> 0 0 =
     Inl IndexOutOfRange \<and>
   split 1152921504606846975 False
       \<lparr>sizes = [5, 3], strides = [3, 1], storage_offset = 0, is_sparse = False\<rparr> 2 0 =
     Inr [View \<lparr>sizes = [2, 3], strides = [3, 1], storage_offset = 0, is_sparse = False\<rparr>,
          View \<lparr>sizes = [2, 3], strides = [3, 1], storage_offset = 6, is_sparse = False\<rparr>,
          View \<lparr>sizes = [1, 3], strides = [3, 1], storage_offset = 12, is_sparse = False\<rparr>] \<and>
   split 2 False
       \<lparr>sizes = [5, 3], strides = [3, 1], storage_offset = 0, is_sparse = False\<rparr> 2 0 =
     Inl AllocationError \<and>
   split 1152921504606846975 False
       \<lparr>sizes = [6], strides = [1], storage_offset = 0, is_sparse = False\<rparr> 3 0 =
     Inr [View \<lparr>sizes = [3], strides = [1], storage_offset = 0, is_sparse = False\<rparr>,
          View \<lparr>sizes = [3], strides = [1], storage_offset = 3, is_sparse = False\<rparr>]"
proof -
  let ?z = "\<lparr>sizes = [], strides = [], storage_offset = 0, is_sparse = False\<rparr>"
  let ?u = "\<lparr>sizes = [5, 3], strides = [3, 1], storage_offset = 0, is_sparse = False\<rparr>"
  let ?e = "\<lparr>sizes = [0], strides = [1], storage_offset = 0, is_sparse = False\<rparr>"
  let ?s = "\<lparr>sizes = [6], strides = [1], storage_offset = 0, is_sparse = False\<rparr>"
  let ?c = "1152921504606846975 :: nat"
  have wu: "wf_tensor ?u \<and> sizes ?u \<noteq> [] \<and> maybe_wrap_dim 0 (tensor_dim ?u) = Inr 0"
    by (simp add: wf_tensor_def maybe_wrap_dim_def tensor_dim_def smax64_def sless64 sle64)
  have we: "wf_tensor ?e \<and> sizes ?e \<noteq> [] \<and> maybe_wrap_dim 0 (tensor_dim ?e) = Inr 0"
    by (simp add: wf_tensor_def maybe_wrap_dim_def tensor_dim_def smax64_def sless64 sle64)
  have ws: "wf_tensor ?s \<and> sizes ?s \<noteq> [] \<and> maybe_wrap_dim 0 (tensor_dim ?s) = Inr 0"
    by (simp add: wf_tensor_def maybe_wrap_dim_def tensor_dim_def smax64_def sless64 sle64)
  have l3: "[0 ..< 3] = [0, 1, 2 :: nat]" and l2: "[0 ..< 2] = [0, 1 :: nat]"
    by (simp_all add: upt_rec)
  have f1: "split ?c False ?z 2 0 = Inl ZeroDimTensorError"
    using split_parts [of ?z ?c 2 0 0 0 0 0 0] by simp
  have f2: "split ?c False ?u (- 1) 0 = Inl InvalidSplitSize"
    using split_parts [of ?u ?c "- 1" 0 0 0 0 0 0] wu by simp
  have f3: "split ?c False ?u 0 0 = Inl InvalidSplitSize"
    using split_parts [of ?u ?c 0 0 0 0 5 0 "(5 + 0 - 1) div 0"] wu by simp
  have f4: "split ?c False ?e 0 0 = Inl IndexOutOfRange"
    using split_parts [of ?e ?c 0 0 0 0 0 0 "(0 + 0 - 1) div 0"] we by simp
  have f5: "split ?c False ?u 2 0 =
     Inr [View \<lparr>sizes = [2, 3], strides = [3, 1], storage_offset = 0, is_sparse = False\<rparr>,
          View \<lparr>sizes = [2, 3], strides = [3, 1], storage_offset = 6, is_sparse = False\<rparr>,
          View \<lparr>sizes = [1, 3], strides = [3, 1], storage_offset = 12, is_sparse = False\<rparr>]"
    using split_parts [of ?u ?c 2 0 0 0 5 2 3] wu by (simp add: l3)
  have f6: "split 2 False ?u 2 0 = Inl AllocationError"
    using split_parts [of ?u 2 2 0 0 0 5 2 3] wu by simp
  have f7: "split ?c False ?s 3 0 =
     Inr [View \<lparr>sizes = [3], strides = [1], storage_offset = 0, is_sparse = False\<rparr>,
          View \<lparr>sizes = [3], strides = [1], storage_offset = 3, is_sparse = False\<rparr>]"
    using split_parts [of ?s ?c 3 0 0 0 6 3 2] ws by (simp add: l2)
  show ?thesis
    using f1 f2 f3 f4 f5 f6 f7 by simp
qed

text \<open>
  C7 as stated fails on a dimension of size 0: the claim gives one part of length 0 for the
  empty tensor of sizes \<open>[0]\<close> and \<open>split_size\<close> 1; \<open>split\<close> fails, here with a vector that
  holds up to \<open>2^60 - 1\<close> tensors.
\<close>

theorem split_empty_counterexample:
  "split 1152921504606846975 False
       \<lparr>sizes = [0], strides = [1], storage_offset = 0, is_sparse = False\<rparr> 1 0 =
     Inl IndexOutOfRange"
  by (simp add: split_def tensor_size_def narrow_def tensor_dim_def maybe_wrap_dim_def
      smax64_def sless64 sle64 sdiv64_def)

text \<open>
  The bound on the number of parts is needed: a tensor of sizes \<open>[2^62]\<close> with stride 0 and
  \<open>split_size\<close> 1 asks for \<open>2^62\<close> parts, more than a vector of \<open>2^60 - 1\<close> tensors
  holds, and \<open>split\<close> fails at line 347.
\<close>

lemma split_too_many_parts:
  "split 1152921504606846975 False
       \<lparr>sizes = [4611686018427387904], strides = [0], storage_offset = 0, is_sparse = False\<rparr>
       1 0 =
     Inl AllocationError"
  by (simp add: split_def tensor_size_def tensor_dim_def maybe_wrap_dim_def
      smax64_def sless64 sle64 sdiv64_def)


section \<open>infer_size\<close>

lemma minus_one_negative: "\<not> 0 \<le>s (- 1 :: int64)"
  by (simp add: sle64)

lemma free_dim_None: "free_dim shape = None \<longleftrightarrow> - 1 \<notin> set shape"
  by (induction shape) auto

lemma free_dim_unique:
  "count_list shape (- 1) \<le> 1 \<Longrightarrow> i < length shape \<Longrightarrow> shape ! i = - 1 \<Longrightarrow>
   free_dim shape = Some i"
proof (induction shape arbitrary: i)
  case Nil
  then show ?case by simp
next
  case (Cons s shape)
  show ?case
  proof (cases i)
    case 0
    then show ?thesis
      using Cons.prems by simp
  next
    case (Suc j)
    then have m: "- 1 \<in> set shape"
      using Cons.prems(2,3) by (auto simp: in_set_conv_nth)
    then have "0 < count_list shape (- 1)"
      using count_list_0_iff [of shape "- 1"] by auto
    then have "s \<noteq> - 1" "count_list shape (- 1) \<le> 1"
      using Cons.prems(1) by (auto split: if_splits)
    then show ?thesis
      using Cons.IH [of j] Cons.prems(2,3) Suc by simp
  qed
qed

lemma map_option_add_0: "map_option ((+) (0::nat)) x = x"
  by (cases x) auto

lemma map_option_add_Suc: "map_option ((+) (Suc d)) x = map_option (\<lambda>j. Suc (d + j)) x"
  by (cases x) auto

text \<open>The loop of \<open>infer_size\<close> on a shape whose entries are \<open>-1\<close> or non-negative.\<close>

lemma infer_loop_entries:
  "list_all (\<lambda>s. s = - 1 \<or> 0 \<le>s s) shape \<Longrightarrow>
   infer_loop shape dim newsize infer_dim =
     (if (infer_dim \<noteq> None \<and> - 1 \<in> set shape) \<or> 1 < count_list shape (- 1)
      then Inl InvalidShapeDimension
      else Inr (newsize * prod_list (filter (\<lambda>s. 0 \<le>s s) shape),
                case infer_dim of
                  Some i \<Rightarrow> Some i
                | None \<Rightarrow> map_option (\<lambda>j. dim + j) (free_dim shape)))"
proof (induction shape arbitrary: dim newsize infer_dim)
  case Nil
  then show ?case
    by (simp split: option.splits)
next
  case (Cons s shape)
  then have e: "list_all (\<lambda>s. s = - 1 \<or> 0 \<le>s s) shape"
    by simp
  show ?case
  proof (cases "s = - 1")
    case True
    show ?thesis
    proof (cases infer_dim)
      case None
      have c: "1 < count_list (s # shape) (- 1) \<longleftrightarrow> - 1 \<in> set shape"
        using True count_list_0_iff [of shape "- 1"] by auto
      show ?thesis
        unfolding c using True None Cons.IH [OF e, of "Suc dim" newsize "Some dim"]
        by (simp add: minus_one_negative)
    next
      case (Some i)
      then show ?thesis
        using True by simp
    qed
  next
    case False
    then have "0 \<le>s s"
      using Cons.prems by simp
    then show ?thesis
      using False Cons.IH [OF e, of "Suc dim" "newsize * s" infer_dim]
      by (auto simp: mult.assoc option.map_comp comp_def map_option_add_Suc split: option.splits)
  qed
qed

lemma infer_loop_valid:
  assumes "valid_shape shape"
  shows "infer_loop shape 0 1 None =
     Inr (prod_list (filter (\<lambda>s. 0 \<le>s s) shape), free_dim shape)"
  using assms infer_loop_entries [of shape 0 1 None]
  by (simp add: valid_shape_def map_option_add_0)

lemma infer_loop_negative:
  "\<exists>s \<in> set shape. s \<noteq> - 1 \<and> \<not> 0 \<le>s s \<Longrightarrow>
   infer_loop shape dim newsize infer_dim = Inl InvalidShapeDimension"
  by (induction shape arbitrary: dim newsize infer_dim) (auto split: option.splits)


text \<open>What \<open>infer_size\<close> returns on a shape that its loop lets through.\<close>

lemma infer_size_valid:
  assumes "valid_shape shape" and "newsize = prod_list (filter (\<lambda>s. 0 \<le>s s) shape)"
  shows "infer_size zd shape n =
     (case free_dim shape of
        None \<Rightarrow>
          if n = newsize then Inr (if \<not> zd \<and> n = 0 then [0] else shape) else Inl ShapeMismatch
      | Some i \<Rightarrow>
          if (n = newsize \<or> 0 <s newsize \<and> smod64 n newsize = 0) \<and> newsize \<noteq> 0
          then Inr (if \<not> zd \<and> n = 0 then [0] else shape[i := sdiv64 n newsize])
          else Inl ShapeMismatch)"
  using infer_loop_valid [OF assms(1)]
  by (auto simp: infer_size_def assms(2) split: option.splits)

lemma smod64_nonneg:
  assumes "0 \<le> sint n" and "0 < sint m"
  shows "smod64 n m = 0 \<longleftrightarrow> sint m dvd sint n"
proof -
  have e: "sint n smod sint m = sint n mod sint m"
    using assms by (simp add: signed_modulo_int_def sgn_if)
  have "0 \<le> sint n mod sint m" "sint n mod sint m < sint m"
    using assms by simp_all
  then have "sint (word_of_int (sint n mod sint m) :: int64) = sint n mod sint m"
    using sint64_range [of m] by (intro sint64_of_int) auto
  then have "(word_of_int (sint n mod sint m) :: int64) = 0 \<longleftrightarrow> sint n mod sint m = 0"
    by (auto simp: sint64_eq_iff)
  then show ?thesis
    by (simp add: smod64_def e dvd_eq_mod_eq_0)
qed

lemma infer_condition:
  assumes "0 \<le> sint n"
  shows "(n = newsize \<or> 0 <s newsize \<and> smod64 n newsize = 0) \<and> newsize \<noteq> 0 \<longleftrightarrow>
         0 <s newsize \<and> smod64 n newsize = 0"
proof (cases "n = newsize \<and> newsize \<noteq> 0")
  case True
  then have "0 < sint newsize"
    using assms by (auto simp: sint64_eq_iff order_less_le)
  then show ?thesis
    using True assms by (auto simp: sless64 smod64_nonneg)
next
  case False
  then show ?thesis
    by (auto simp: sless64)
qed

text \<open>
  C3, as the code has it, without \<open>USE_TH_SIZE_ZERO_DIM\<close>. For a shape with at most one \<open>-1\<close>
  and every other entry non-negative, \<open>newsize\<close> the product of the non-negative entries in
  64-bit arithmetic, and \<open>numel \<ge> 0\<close>: with no \<open>-1\<close>, \<open>infer_size\<close> succeeds exactly when
  \<open>newsize = numel\<close>; with a \<open>-1\<close> at position \<open>i\<close>, it succeeds exactly when \<open>newsize > 0\<close>
  and \<open>numel % newsize = 0\<close>, that is when \<open>newsize\<close> divides \<open>numel\<close>. A success returns
  \<open>[0]\<close> when \<open>numel = 0\<close>, and otherwise the requested shape, with position \<open>i\<close> set to
  \<open>numel / newsize\<close>. Every failure here is a \<open>ShapeMismatch\<close>.
\<close>

theorem infer_size_free_dimension:
  assumes "valid_shape shape" and "newsize = prod_list (filter (\<lambda>s. 0 \<le>s s) shape)"
    and "0 \<le> sint n"
  shows "(- 1 \<notin> set shape \<longrightarrow>
            infer_size False shape n =
              (if n = newsize then Inr (if n = 0 then [0] else shape) else Inl ShapeMismatch)) \<and>
         (i < length shape \<and> shape ! i = - 1 \<longrightarrow>
            infer_size False shape n =
              (if 0 <s newsize \<and> smod64 n newsize = 0
               then Inr (if n = 0 then [0] else shape[i := sdiv64 n newsize])
               else Inl ShapeMismatch) \<and>
            (0 <s newsize \<longrightarrow>
               (smod64 n newsize = 0 \<longleftrightarrow> sint newsize dvd sint n) \<and>
               sint (sdiv64 n newsize) = sint n div sint newsize))"
proof (intro conjI impI)
  assume "- 1 \<notin> set shape"
  then have "free_dim shape = None"
    by (simp add: free_dim_None)
  then show "infer_size False shape n =
      (if n = newsize then Inr (if n = 0 then [0] else shape) else Inl ShapeMismatch)"
    using infer_size_valid [OF assms(1,2), of False n] by simp
next
  assume "i < length shape \<and> shape ! i = - 1"
  then have "free_dim shape = Some i"
    using assms(1) by (intro free_dim_unique) (auto simp: valid_shape_def)
  then show "infer_size False shape n =
      (if 0 <s newsize \<and> smod64 n newsize = 0
       then Inr (if n = 0 then [0] else shape[i := sdiv64 n newsize])
       else Inl ShapeMismatch)"
    using infer_size_valid [OF assms(1,2), of False n] infer_condition [OF assms(3), of newsize]
    by simp
next
  assume "0 <s newsize"
  then show "smod64 n newsize = 0 \<longleftrightarrow> sint newsize dvd sint n"
    using assms(3) by (simp add: sless64 smod64_nonneg)
next
  assume "0 <s newsize"
  then show "sint (sdiv64 n newsize) = sint n div sint newsize"
    using assms(3) by (simp add: sless64 sint_sdiv64_pos)
qed

theorem infer_size_free_dimension_witness:
  "infer_size False [- 1, 4] 12 = Inr [3, 4] \<and>
   infer_size False [- 1, 4] 10 = Inl ShapeMismatch \<and>
   infer_size False [3, 4] 12 = Inr [3, 4] \<and>
   infer_size False [3, 4] 10 = Inl ShapeMismatch"
proof -
  have v: "valid_shape [- 1, 4]" "valid_shape [3, 4]"
    by (simp_all add: valid_shape_def sle64)
  have p: "(4 :: int64) = prod_list (filter (\<lambda>s. 0 \<le>s s) [- 1, 4])"
    "(12 :: int64) = prod_list (filter (\<lambda>s. 0 \<le>s s) [3, 4])"
    by (simp_all add: sle64)
  have n: "0 \<le> sint (12 :: int64)" "0 \<le> sint (10 :: int64)"
    by simp_all
  have f1: "infer_size False [- 1, 4] 12 = Inr [3, 4]"
    using infer_size_free_dimension [OF v(1) p(1) n(1), of 0]
    by (simp add: sless64 smod64_def sdiv64_def)
  have f2: "infer_size False [- 1, 4] 10 = Inl ShapeMismatch"
    using infer_size_free_dimension [OF v(1) p(1) n(2), of 0]
    by (simp add: sless64 smod64_def sdiv64_def)
  have f3: "infer_size False [3, 4] 12 = Inr [3, 4]"
    using infer_size_free_dimension [OF v(2) p(2) n(1), of 0] by simp
  have f4: "infer_size False [3, 4] 10 = Inl ShapeMismatch"
    using infer_size_free_dimension [OF v(2) p(2) n(2), of 0] by simp
  show ?thesis
    using f1 f2 f3 f4 by simp
qed

text \<open>
  C3 as stated fails for \<open>numel = 0\<close>: the request \<open>[4, -1]\<close> succeeds, since \<open>newsize = 4\<close>
  divides 0, but the result is \<open>[0]\<close> and not the request with its free dimension set to
  \<open>0 / 4\<close>.
\<close>

theorem infer_size_collapse_counterexample:
  "infer_size False [4, - 1] 0 = Inr [0] \<and> infer_size False [4, - 1] 0 \<noteq> Inr [4, 0]"
  by (simp add: infer_size_def sle64 sless64 smod64_def)

lemma smod64_zero: "smod64 0 m = 0"
  by (simp add: smod64_def)

lemma free_dim_Some: "- 1 \<in> set shape \<Longrightarrow> \<exists>i. free_dim shape = Some i"
  using free_dim_None [of shape] by auto

text \<open>
  C4. Without \<open>USE_TH_SIZE_ZERO_DIM\<close>, whenever \<open>infer_size\<close> accepts a request for
  \<open>numel = 0\<close>, it returns \<open>[0]\<close>, whatever the rank of the request. A request with at most
  one \<open>-1\<close> and every other entry non-negative is accepted exactly when it has no \<open>-1\<close> and
  the product of its entries is 0, or has a \<open>-1\<close> and the product of its other entries is
  positive; otherwise it fails with \<open>ShapeMismatch\<close>.
\<close>

theorem infer_size_zero_elements:
  "(infer_size False shape 0 = Inr r \<longrightarrow> r = [0]) \<and>
   (valid_shape shape \<and> newsize = prod_list (filter (\<lambda>s. 0 \<le>s s) shape) \<longrightarrow>
      infer_size False shape 0 =
        (if (if - 1 \<in> set shape then 0 <s newsize else newsize = 0)
         then Inr [0] else Inl ShapeMismatch))"
proof (intro conjI impI)
  assume "infer_size False shape 0 = Inr r"
  then show "r = [0]"
    by (auto simp: infer_size_def split: sum.splits prod.splits option.splits if_splits)
next
  assume a: "valid_shape shape \<and> newsize = prod_list (filter (\<lambda>s. 0 \<le>s s) shape)"
  show "infer_size False shape 0 =
        (if (if - 1 \<in> set shape then 0 <s newsize else newsize = 0)
         then Inr [0] else Inl ShapeMismatch)"
  proof (cases "- 1 \<in> set shape")
    case True
    then obtain i where "free_dim shape = Some i"
      using free_dim_Some by blast
    then show ?thesis
      using True a infer_size_valid [of shape newsize False 0]
      by (auto simp: smod64_zero sless64)
  next
    case False
    then have "free_dim shape = None"
      by (simp add: free_dim_None)
    then show ?thesis
      using False a infer_size_valid [of shape newsize False 0] by auto
  qed
qed

theorem infer_size_zero_elements_witness:
  "infer_size False [0, 5] 0 = Inr [0] \<and> infer_size False [2, 0, 3] 0 = Inr [0] \<and>
   infer_size False [3, - 1] 0 = Inr [0] \<and> infer_size False [2, 3] 0 = Inl ShapeMismatch \<and>
   infer_size False [- 1, 0] 0 = Inl ShapeMismatch"
proof -
  have v: "valid_shape [0, 5] \<and> (0 :: int64) = prod_list (filter (\<lambda>s. 0 \<le>s s) [0, 5])"
    "valid_shape [2, 0, 3] \<and> (0 :: int64) = prod_list (filter (\<lambda>s. 0 \<le>s s) [2, 0, 3])"
    "valid_shape [3, - 1] \<and> (3 :: int64) = prod_list (filter (\<lambda>s. 0 \<le>s s) [3, - 1])"
    "valid_shape [2, 3] \<and> (6 :: int64) = prod_list (filter (\<lambda>s. 0 \<le>s s) [2, 3])"
    "valid_shape [- 1, 0] \<and> (0 :: int64) = prod_list (filter (\<lambda>s. 0 \<le>s s) [- 1, 0])"
    by (simp_all add: valid_shape_def sle64)
  have f1: "infer_size False [0, 5] 0 = Inr [0]"
    using infer_size_zero_elements [of "[0, 5]" "[0]" 0] v(1) by simp
  have f2: "infer_size False [2, 0, 3] 0 = Inr [0]"
    using infer_size_zero_elements [of "[2, 0, 3]" "[0]" 0] v(2) by simp
  have f3: "infer_size False [3, - 1] 0 = Inr [0]"
    using infer_size_zero_elements [of "[3, - 1]" "[0]" 3] v(3) by (simp add: sless64)
  have f4: "infer_size False [2, 3] 0 = Inl ShapeMismatch"
    using infer_size_zero_elements [of "[2, 3]" "[0]" 6] v(4) by simp
  have f5: "infer_size False [- 1, 0] 0 = Inl ShapeMismatch"
    using infer_size_zero_elements [of "[- 1, 0]" "[0]" 0] v(5) by (simp add: sless64)
  show ?thesis
    using f1 f2 f3 f4 f5 by simp
qed

section \<open>unsqueeze\<close>

lemma insert_at_nth:
  assumes "n \<le> length xs" and "j \<le> length xs"
  shows "insert_at xs n x ! j = (if j < n then xs ! j else if j = n then x else xs ! (j - 1))"
proof -
  consider "j < n" | "j = n" | "n < j"
    by linarith
  then show ?thesis
  proof cases
    case 1
    then show ?thesis
      using assms by (simp add: insert_at_def nth_append)
  next
    case 2
    then show ?thesis
      using assms by (simp add: insert_at_def nth_append)
  next
    case 3
    then obtain m where m: "j - n = Suc m"
      by (cases "j - n") auto
    then have "n + m = j - 1"
      by simp
    then show ?thesis
      using 3 m assms by (simp add: insert_at_def nth_append)
  qed
qed

lemma length_insert_at: "length (insert_at xs n x) = Suc (length xs)"
  by (simp add: insert_at_def)

lemma nth_take_Cons_drop:
  assumes "k \<le> length xs" and "j \<le> length xs"
  shows "(take k xs @ x # drop k xs) ! j =
         (if j < k then xs ! j else if j = k then x else xs ! (j - 1))"
  using insert_at_nth [OF assms, of x] by (simp add: insert_at_def)

text \<open>
  The element count of the specification, on integers, and \<open>numel\<close>: they agree when the
  count is an \<open>int64_t\<close>, and a size 0 makes both 0.
\<close>

lemma prod_list_zero_entry: "0 \<in> set xs \<Longrightarrow> prod_list xs = (0 :: int64)"
  by (induction xs) auto

lemma numel_zero_size: "0 \<in> set (sizes t) \<Longrightarrow> numel t = 0"
  by (simp add: numel_def prod_list_zero_entry)

lemma sint_zero_iff: "sint (w :: int64) = 0 \<longleftrightarrow> w = 0"
  using sint64_eq_iff [of w 0] by simp

lemma sint_prod_list:
  "list_all (\<lambda>s. 0 \<le>s s) xs \<Longrightarrow> 0 \<notin> set xs \<Longrightarrow> prod_list (map sint xs) < 2 ^ 63 \<Longrightarrow>
   sint (prod_list xs :: int64) = prod_list (map sint xs) \<and> 1 \<le> prod_list (map sint xs)"
proof (induction xs)
  case Nil
  then show ?case by simp
next
  case (Cons x xs)
  let ?p = "prod_list (map sint xs)"
  have x: "1 \<le> sint x"
  proof -
    have "0 \<le> sint x" "sint x \<noteq> 0"
      using Cons.prems(1,2) by (auto simp: sle64 sint_zero_iff)
    then show ?thesis
      by simp
  qed
  have t: "sint x * ?p < 2 ^ 63"
    using Cons.prems(3) by simp
  have p0: "0 < ?p"
  proof (rule ccontr)
    assume "\<not> 0 < ?p"
    then have "?p \<le> 0"
      by simp
    moreover have "0 \<le> ?p"
      using Cons.prems(1) by (intro prod_list_nonneg) (auto simp: list_all_iff sle64)
    ultimately have "?p = 0"
      by simp
    then have "0 \<in> set (map sint xs)"
      by (simp add: prod_list_zero_iff)
    then show False
      using Cons.prems(2) by (auto simp: sint_zero_iff)
  qed
  have "1 * ?p \<le> sint x * ?p"
    using x p0 by (intro mult_right_mono) auto
  then have pb: "?p < 2 ^ 63"
    using t by simp
  have ih: "sint (prod_list xs) = ?p"
    using Cons.IH Cons.prems(1,2) pb by simp
  have lo: "- (2 ^ 63) \<le> sint x * sint (prod_list xs)"
  proof -
    have "0 \<le> sint x * ?p"
      using x p0 by simp
    then have "- (2 ^ 63) \<le> sint x * ?p"
      by (rule order_trans [rotated]) simp
    then show ?thesis
      by (simp add: ih)
  qed
  have "sint (x * prod_list xs) = sint x * ?p"
    using lo t sint64_mult [of x "prod_list xs"] by (simp add: ih)
  moreover have "1 \<le> sint x * ?p"
  proof -
    have "1 * 1 \<le> sint x * ?p"
      using x p0 by (intro mult_mono) auto
    then show ?thesis
      by simp
  qed
  ultimately show ?case
    by simp
qed

lemma numel_nonzero:
  assumes "wf_tensor t" and "0 \<notin> set (sizes t)" and "prod_list (map sint (sizes t)) < 2 ^ 63"
  shows "numel t \<noteq> 0"
proof -
  have "sint (numel t) = prod_list (map sint (sizes t)) \<and> 1 \<le> prod_list (map sint (sizes t))"
    unfolding numel_def using assms by (intro sint_prod_list) (auto simp: wf_tensor_def)
  then show ?thesis
    by (auto simp: sint64_eq_iff)
qed

text \<open>
  C8. Without \<open>USE_TH_SIZE_ZERO_DIM\<close>, on a well-formed tensor whose rank plus one is an
  \<open>int64_t\<close>: \<open>unsqueeze\<close> accepts the positions from \<open>- (rank + 1)\<close> to \<open>rank\<close>, the end
  included, adding \<open>rank + 1\<close> to a negative one; it fails on every tensor with a size 0,
  that is with no element, and more generally whenever \<open>numel\<close> is 0. On a tensor with no
  size 0 whose element count is an \<open>int64_t\<close>, \<open>numel\<close> is not 0, and then the result is
  the view whose sizes are those of the source before the normalized position \<open>k\<close>, then 1,
  then those from \<open>k\<close> on, and whose strides are those of the source before \<open>k\<close>, then
  \<open>sizes[k] * strides[k]\<close> when \<open>k\<close> is below the rank and 1 when \<open>k\<close> is the rank, then
  those from \<open>k\<close> on: entry \<open>j\<close> of the result is entry \<open>j\<close> of the source below \<open>k\<close>, the
  new entry at \<open>k\<close>, and entry \<open>j - 1\<close> of the source above \<open>k\<close>. The rank is one more and
  the offset is unchanged.
\<close>

theorem unsqueeze_geometry:
  assumes "wf_tensor t" and "length (sizes t) + 1 < 2 ^ 63"
  shows "maybe_wrap_dim dim (tensor_dim t + 1) =
           (if - int (length (sizes t)) - 1 \<le> sint dim \<and> sint dim \<le> int (length (sizes t))
            then Inr (if sint dim < 0 then dim + (tensor_dim t + 1) else dim)
            else Inl InvalidDimension) \<and>
         (0 \<in> set (sizes t) \<longrightarrow> numel t = 0) \<and>
         (numel t = 0 \<longrightarrow> isl (unsqueeze False t dim)) \<and>
         (0 \<notin> set (sizes t) \<and> prod_list (map sint (sizes t)) < 2 ^ 63 \<longrightarrow> numel t \<noteq> 0) \<and>
         (maybe_wrap_dim dim (tensor_dim t + 1) = Inl e \<longrightarrow> unsqueeze False t dim = Inl e) \<and>
         (numel t \<noteq> 0 \<and> maybe_wrap_dim dim (tensor_dim t + 1) = Inr d \<and> k = nat (sint d) \<longrightarrow>
            k \<le> length (sizes t) \<and>
            unsqueeze False t dim =
              Inr (View (t\<lparr>sizes := take k (sizes t) @ 1 # drop k (sizes t),
                           strides := take k (strides t) @
                             (if k < length (sizes t) then sizes t ! k * strides t ! k else 1) #
                             drop k (strides t)\<rparr>)) \<and>
            length (take k (sizes t) @ 1 # drop k (sizes t)) = length (sizes t) + 1 \<and>
            length (take k (strides t) @ x # drop k (strides t)) = length (sizes t) + 1 \<and>
            (j \<le> length (sizes t) \<longrightarrow>
               (take k (sizes t) @ 1 # drop k (sizes t)) ! j =
                 (if j < k then sizes t ! j else if j = k then 1 else sizes t ! (j - 1)) \<and>
               (take k (strides t) @ x # drop k (strides t)) ! j =
                 (if j < k then strides t ! j else if j = k then x else strides t ! (j - 1))))"
proof -
  have len: "length (strides t) = length (sizes t)"
    using assms(1) by (simp add: wf_tensor_def)
  have r: "sint (tensor_dim t + 1) = int (length (sizes t)) + 1"
    using assms sint_tensor_dim [OF assms(1)] by (subst sint64_add) auto
  have w: "maybe_wrap_dim dim (tensor_dim t + 1) =
           (if - int (length (sizes t)) - 1 \<le> sint dim \<and> sint dim \<le> int (length (sizes t))
            then Inr (if sint dim < 0 then dim + (tensor_dim t + 1) else dim)
            else Inl InvalidDimension)"
    using r maybe_wrap_dim_sint [of "tensor_dim t + 1" dim] by auto
  have z0: "numel t = 0" if "0 \<in> set (sizes t)"
    using that by (rule numel_zero_size)
  have z: "isl (unsqueeze False t dim)" if "numel t = 0"
    using that by (auto simp: unsqueeze_def inferUnsqueezeGeometry_def split: sum.splits)
  have nz: "numel t \<noteq> 0"
    if "0 \<notin> set (sizes t) \<and> prod_list (map sint (sizes t)) < 2 ^ 63"
    using assms(1) that by (intro numel_nonzero) auto
  have e: "unsqueeze False t dim = Inl e" if "maybe_wrap_dim dim (tensor_dim t + 1) = Inl e"
    using that by (simp add: unsqueeze_def)
  have v: "k \<le> length (sizes t) \<and>
            unsqueeze False t dim =
              Inr (View (t\<lparr>sizes := take k (sizes t) @ 1 # drop k (sizes t),
                           strides := take k (strides t) @
                             (if k < length (sizes t) then sizes t ! k * strides t ! k else 1) #
                             drop k (strides t)\<rparr>)) \<and>
            length (take k (sizes t) @ 1 # drop k (sizes t)) = length (sizes t) + 1 \<and>
            length (take k (strides t) @ x # drop k (strides t)) = length (sizes t) + 1 \<and>
            (j \<le> length (sizes t) \<longrightarrow>
               (take k (sizes t) @ 1 # drop k (sizes t)) ! j =
                 (if j < k then sizes t ! j else if j = k then 1 else sizes t ! (j - 1)) \<and>
               (take k (strides t) @ x # drop k (strides t)) ! j =
                 (if j < k then strides t ! j else if j = k then x else strides t ! (j - 1)))"
    if h: "numel t \<noteq> 0 \<and> maybe_wrap_dim dim (tensor_dim t + 1) = Inr d \<and> k = nat (sint d)"
  proof -
    have s: "sint (dim + (tensor_dim t + 1)) = sint dim + sint (tensor_dim t + 1)" if "sint dim < 0"
      using that r sint64_range [of dim] assms(2) by (subst sint64_add) auto
    have d: "0 \<le> sint d" "sint d \<le> int (length (sizes t))"
      using h w s r by (auto split: if_splits)
    then have k: "k \<le> length (sizes t)"
      using h by auto
    have c: "tensor_dim t \<le>s d \<longleftrightarrow> \<not> k < length (sizes t)"
      using d h sint_tensor_dim [OF assms(1)] by (auto simp: sle64)
    have u: "unsqueeze False t dim =
              Inr (View (t\<lparr>sizes := take k (sizes t) @ 1 # drop k (sizes t),
                           strides := take k (strides t) @
                             (if k < length (sizes t) then sizes t ! k * strides t ! k else 1) #
                             drop k (strides t)\<rparr>))"
      using h k c
      by (simp add: unsqueeze_def inferUnsqueezeGeometry_def Let_def as_strided_def
          as_strided3_def insert_at_def)
    have l1: "length (take k (sizes t) @ 1 # drop k (sizes t)) = length (sizes t) + 1"
      using k by simp
    have l2: "length (take k (strides t) @ x # drop k (strides t)) = length (sizes t) + 1"
      using k len by simp
    have n1: "(take k (sizes t) @ 1 # drop k (sizes t)) ! j =
                 (if j < k then sizes t ! j else if j = k then 1 else sizes t ! (j - 1))"
      if "j \<le> length (sizes t)"
      using k that by (rule nth_take_Cons_drop)
    have n2: "(take k (strides t) @ x # drop k (strides t)) ! j =
                 (if j < k then strides t ! j else if j = k then x else strides t ! (j - 1))"
      if "j \<le> length (sizes t)"
      using k that len nth_take_Cons_drop [of k "strides t" j x] by simp
    show ?thesis
      using k u l1 l2 n1 n2 by blast
  qed
  show ?thesis
    using w z0 z nz e v by blast
qed

theorem unsqueeze_geometry_witness:
  "unsqueeze False \<lparr>sizes = [2, 3, 4], strides = [12, 4, 1], storage_offset = 2, is_sparse = False\<rparr> 1 =
     Inr (View \<lparr>sizes = [2, 1, 3, 4], strides = [12, 12, 4, 1], storage_offset = 2,
                  is_sparse = False\<rparr>) \<and>
   unsqueeze False \<lparr>sizes = [2, 3, 4], strides = [12, 4, 1], storage_offset = 2, is_sparse = False\<rparr>
       (- 2) =
     Inr (View \<lparr>sizes = [2, 3, 1, 4], strides = [12, 4, 4, 1], storage_offset = 2,
                  is_sparse = False\<rparr>) \<and>
   unsqueeze False \<lparr>sizes = [2, 3, 4], strides = [12, 4, 1], storage_offset = 2, is_sparse = False\<rparr> 3 =
     Inr (View \<lparr>sizes = [2, 3, 4, 1], strides = [12, 4, 1, 1], storage_offset = 2,
                  is_sparse = False\<rparr>) \<and>
   unsqueeze False \<lparr>sizes = [2, 3, 4], strides = [12, 4, 1], storage_offset = 2, is_sparse = False\<rparr>
       (- 4) =
     Inr (View \<lparr>sizes = [1, 2, 3, 4], strides = [24, 12, 4, 1], storage_offset = 2,
                  is_sparse = False\<rparr>) \<and>
   unsqueeze False \<lparr>sizes = [2, 3, 4], strides = [12, 4, 1], storage_offset = 2, is_sparse = False\<rparr> 4 =
     Inl InvalidDimension \<and>
   isl (unsqueeze False \<lparr>sizes = [0], strides = [1], storage_offset = 0, is_sparse = False\<rparr> 0)"
proof -
  let ?u = "\<lparr>sizes = [2, 3, 4], strides = [12, 4, 1], storage_offset = 2, is_sparse = False\<rparr>"
  let ?e = "\<lparr>sizes = [0], strides = [1], storage_offset = 0, is_sparse = False\<rparr>"
  have wu: "wf_tensor ?u" "length (sizes ?u) + 1 < 2 ^ 63"
    and we: "wf_tensor ?e" "length (sizes ?e) + 1 < 2 ^ 63"
    by (simp_all add: wf_tensor_def sle64)
  have c: "0 \<notin> set (sizes ?u) \<and> prod_list (map sint (sizes ?u)) < 2 ^ 63"
    by simp
  have n: "numel ?u \<noteq> 0"
    using unsqueeze_geometry [OF wu, of 0 InvalidDimension 0 0 0 0] c by blast
  have m: "numel ?e = 0"
    using unsqueeze_geometry [OF we, of 0 InvalidDimension 0 0 0 0] by simp
  have f1: "unsqueeze False ?u 1 =
     Inr (View \<lparr>sizes = [2, 1, 3, 4], strides = [12, 12, 4, 1], storage_offset = 2,
                  is_sparse = False\<rparr>)"
    using unsqueeze_geometry [OF wu, of 1 InvalidDimension 1 1 0 0] n
    by (simp add: tensor_dim_def)
  have f2: "unsqueeze False ?u (- 2) =
     Inr (View \<lparr>sizes = [2, 3, 1, 4], strides = [12, 4, 4, 1], storage_offset = 2,
                  is_sparse = False\<rparr>)"
    using unsqueeze_geometry [OF wu, of "- 2" InvalidDimension 2 2 0 0] n
    by (simp add: tensor_dim_def)
  have f3: "unsqueeze False ?u 3 =
     Inr (View \<lparr>sizes = [2, 3, 4, 1], strides = [12, 4, 1, 1], storage_offset = 2,
                  is_sparse = False\<rparr>)"
    using unsqueeze_geometry [OF wu, of 3 InvalidDimension 3 3 0 0] n
    by (simp add: tensor_dim_def)
  have f4: "unsqueeze False ?u (- 4) =
     Inr (View \<lparr>sizes = [1, 2, 3, 4], strides = [24, 12, 4, 1], storage_offset = 2,
                  is_sparse = False\<rparr>)"
    using unsqueeze_geometry [OF wu, of "- 4" InvalidDimension 0 0 0 0] n
    by (simp add: tensor_dim_def)
  have f5: "unsqueeze False ?u 4 = Inl InvalidDimension"
    using unsqueeze_geometry [OF wu, of 4 InvalidDimension 0 0 0 0]
    by (simp add: tensor_dim_def)
  have f6: "isl (unsqueeze False ?e 0)"
    using unsqueeze_geometry [OF we, of 0 InvalidDimension 0 0 0 0] m by simp
  show ?thesis
    using f1 f2 f3 f4 f5 f6 by simp
qed

section \<open>transpose and permute\<close>

lemma maybe_wrap_dim_index:
  assumes "wf_tensor t" and "k < length (sizes t)"
  shows "maybe_wrap_dim (word_of_nat k) (tensor_dim t) = Inr (word_of_nat k)"
    and "nat (sint (word_of_nat k :: int64)) = k"
proof -
  have "k < 2 ^ 63"
    using assms by (simp add: wf_tensor_def)
  then have s: "sint (word_of_nat k :: int64) = int k"
    by (rule sint64_of_nat)
  show "maybe_wrap_dim (word_of_nat k) (tensor_dim t) = Inr (word_of_nat k)"
    using assms(2) s sint_tensor_dim [OF assms(1)]
    by (simp add: maybe_wrap_dim_sint)
  show "nat (sint (word_of_nat k :: int64)) = k"
    using s by simp
qed

text \<open>
  The loop of \<open>permute\<close> on the identity permutation, from position \<open>k\<close> on: no dimension
  from \<open>k\<close> on has been seen, and each is copied in turn.
\<close>

lemma permute_loop_identity:
  assumes "wf_tensor t"
  shows "k \<le> length (sizes t) \<Longrightarrow> length seen = length (sizes t) \<Longrightarrow>
     \<forall>j. k \<le> j \<and> j < length (sizes t) \<longrightarrow> \<not> seen ! j \<Longrightarrow>
     permute_loop t (map word_of_nat [k ..< length (sizes t)]) seen =
       Inr (drop k (sizes t), drop k (strides t))"
proof (induction "length (sizes t) - k" arbitrary: k seen)
  case 0
  then show ?case
    using assms by (simp add: wf_tensor_def)
next
  case (Suc m)
  then have k: "k < length (sizes t)"
    by simp
  have ks: "k < length (strides t)"
    using k assms by (simp add: wf_tensor_def)
  have u: "[k ..< length (sizes t)] = k # [Suc k ..< length (sizes t)]"
    using k by (simp add: upt_conv_Cons)
  have ih: "permute_loop t (map word_of_nat [Suc k ..< length (sizes t)]) (seen[k := True]) =
       Inr (drop (Suc k) (sizes t), drop (Suc k) (strides t))"
    using Suc.hyps(2) Suc.prems k by (intro Suc.hyps(1)) auto
  show ?case
    using k ks ih Suc.prems(3) maybe_wrap_dim_index [OF assms k]
    by (simp add: u Cons_nth_drop_Suc)
qed

text \<open>
  C9. On a dense tensor, \<open>transpose\<close> with two dimensions that normalize to the same one
  returns the tensor itself, and \<open>permute\<close> with the identity permutation returns the view
  with the sizes, strides and storage offset of the source.
\<close>

theorem transpose_permute_identity:
  "(\<not> is_sparse t \<and> maybe_wrap_dim dim0 (tensor_dim t) = Inr d \<and>
    maybe_wrap_dim dim1 (tensor_dim t) = Inr d \<longrightarrow> transpose_t t dim0 dim1 = Inr (View t)) \<and>
   (\<not> is_sparse t \<and> wf_tensor t \<longrightarrow>
      permute t (map word_of_nat [0 ..< length (sizes t)]) = Inr (View t))"
proof (intro conjI impI)
  assume "\<not> is_sparse t \<and> maybe_wrap_dim dim0 (tensor_dim t) = Inr d \<and>
    maybe_wrap_dim dim1 (tensor_dim t) = Inr d"
  then show "transpose_t t dim0 dim1 = Inr (View t)"
    by (simp add: transpose_t_def)
next
  assume a: "\<not> is_sparse t \<and> wf_tensor t"
  then have "permute_loop t (map word_of_nat [0 ..< length (sizes t)])
      (replicate (length (sizes t)) False) = Inr (drop 0 (sizes t), drop 0 (strides t))"
    by (intro permute_loop_identity) auto
  then show "permute t (map word_of_nat [0 ..< length (sizes t)]) = Inr (View t)"
    by (simp add: permute_def as_strided_def as_strided3_def)
qed

theorem transpose_permute_identity_witness:
  "transpose_t \<lparr>sizes = [5, 3], strides = [3, 1], storage_offset = 2, is_sparse = False\<rparr> 1 (- 1) =
     Inr (View \<lparr>sizes = [5, 3], strides = [3, 1], storage_offset = 2, is_sparse = False\<rparr>) \<and>
   permute \<lparr>sizes = [5, 3], strides = [3, 1], storage_offset = 2, is_sparse = False\<rparr> [0, 1] =
     Inr (View \<lparr>sizes = [5, 3], strides = [3, 1], storage_offset = 2, is_sparse = False\<rparr>)"
proof -
  let ?t = "\<lparr>sizes = [5, 3], strides = [3, 1], storage_offset = 2, is_sparse = False\<rparr>"
  have h: "\<not> is_sparse ?t" "wf_tensor ?t" "maybe_wrap_dim 1 (tensor_dim ?t) = Inr 1"
    "maybe_wrap_dim (- 1) (tensor_dim ?t) = Inr 1"
    by (simp_all add: wf_tensor_def maybe_wrap_dim_def tensor_dim_def smax64_def sless64 sle64)
  have l: "[0 ..< 2] = [0, 1 :: nat]"
    by (simp add: upt_rec)
  show ?thesis
    using transpose_permute_identity [of ?t 1 1 "- 1"] h by (simp add: l)
qed

section \<open>expand\<close>

text \<open>
  The example of the specification: a tensor of sizes \<open>[1, 3]\<close> expanded to \<open>[5, 3]\<close> has
  size 5 and stride 0 along dimension 0.
\<close>

lemma expand_example:
  "expand \<lparr>sizes = [1, 3], strides = [3, 1], storage_offset = 0, is_sparse = False\<rparr> [5, 3] b =
     Inr (View \<lparr>sizes = [5, 3], strides = [0, 1], storage_offset = 0, is_sparse = False\<rparr>)"
  by (simp add: expand_def inferExpandGeometry_def as_strided_def as_strided3_def)

text \<open>
  C10. For every tensor and every target size list, \<open>expand\<close> with \<open>implicit = true\<close> and
  with \<open>implicit = false\<close> return the same result, a view with the same sizes, strides and
  storage offset or the same failure: the flag is not read.
\<close>

theorem expand_implicit_flag: "expand self target True = expand self target False"
  by (simp add: expand_def)

end
